theory Spec2Isabelle
  imports Main "HOL-Library.Multiset"
begin

section \<open>Data model\<close>

text \<open>
  The summary record of \<^verbatim>\<open>reviewedPreprintItemCodec\<close> (queries/reviewed-preprints.ts).
  The field \<^verbatim>\<open>id\<close> is called \<open>id'\<close> here, since \<open>id\<close> is the identity function of HOL.
  The two dates are held in memory as \<^verbatim>\<open>Date\<close> objects. \<^verbatim>\<open>Schema.DateFromString\<close> decodes
  any string with \<^verbatim>\<open>new Date\<close>, so a date may be an Invalid Date. The model keeps what
  \<^verbatim>\<open>getTime()\<close> returns: a number, that is the milliseconds since the epoch for a valid
  date and \<^verbatim>\<open>NaN\<close>, written \<open>None\<close>, for an Invalid Date.
\<close>

type_synonym number = "int option"

record ReviewedPreprint =
  id' :: string
  title :: string
  published :: number
  statusDate :: number
  hash :: "string option"

definition validDates :: "ReviewedPreprint \<Rightarrow> bool" where
  "validDates r = (published r \<noteq> None \<and> statusDate r \<noteq> None)"

type_synonym ReviewedPreprints = "ReviewedPreprint list"

text \<open>
  JSON values are kept up to what the three codecs of the module make of them: an array
  that \<^verbatim>\<open>reviewedPreprintsCodec\<close> decodes to the given records, an object that
  \<^verbatim>\<open>paginatedReviewedPreprintsCodec\<close> decodes to a total and items, an object that
  \<^verbatim>\<open>reviewedPreprintItemCodec\<close> decodes to one record, or any other value (which no
  codec of the module accepts). One kind of other value is kept apart: what
  \<^verbatim>\<open>JSON.stringify\<close> writes for a value that holds an Invalid Date, where the date
  becomes \<^verbatim>\<open>null\<close>, which the codecs refuse. A document (the text of a file or of a
  response) is either the serialisation of a JSON value or not JSON at all.
\<close>

datatype json =
    JsonList ReviewedPreprints
  | JsonPage int ReviewedPreprints
  | JsonItem ReviewedPreprint
  | JsonNulls json
  | JsonOther

datatype document = NotJson | JsonText json

text \<open>
  The two kinds of URL the module requests: a page of the list
  (\<^verbatim>\<open>?order=asc&page=..&per-page=..\<close>) and one item (\<^verbatim>\<open>/msid\<close>).
\<close>

datatype request = ListPage nat nat | Item string

datatype error =
    SystemError
  | InvalidJSON
  | ParseError
  | RequestError request
  | ResponseError request

text \<open>
  What the program does not decide: the remote server (\<open>None\<close> when the request fails,
  otherwise the body of the response; a request is answered the same way throughout a
  run), the MD5 digest of an item's serialisation, and the paths on which a file
  operation that changes the store fails.
\<close>

record env =
  http :: "request \<Rightarrow> document option"
  md5 :: "ReviewedPreprint \<Rightarrow> string"
  denied :: "string \<Rightarrow> bool"

text \<open>
  The file store: the content of every path that exists. Paths are compared as strings.
\<close>

type_synonym fs = "string \<rightharpoonup> document"

section \<open>Effects\<close>

text \<open>
  An effect runs on the file store and returns a failure or a value together with the
  store it leaves. The combinators are those of the \<^verbatim>\<open>effect\<close> package, in their
  data-first form.
\<close>

type_synonym 'a effect = "fs \<Rightarrow> (error + 'a) \<times> fs"

definition Effect_succeed :: "'a \<Rightarrow> 'a effect" where
  "Effect_succeed a = (\<lambda>s. (Inr a, s))"

definition Effect_fail :: "error \<Rightarrow> 'a effect" where
  "Effect_fail e = (\<lambda>s. (Inl e, s))"

definition Effect_flatMap :: "'a effect \<Rightarrow> ('a \<Rightarrow> 'b effect) \<Rightarrow> 'b effect" where
  "Effect_flatMap m f =
     (\<lambda>s. case m s of (Inl e, s') \<Rightarrow> (Inl e, s') | (Inr a, s') \<Rightarrow> f a s')"

definition Effect_map :: "'a effect \<Rightarrow> ('a \<Rightarrow> 'b) \<Rightarrow> 'b effect" where
  "Effect_map m f = Effect_flatMap m (\<lambda>a. Effect_succeed (f a))"

definition Effect_tap :: "'a effect \<Rightarrow> ('a \<Rightarrow> 'b effect) \<Rightarrow> 'a effect" where
  "Effect_tap m f = Effect_flatMap m (\<lambda>a. Effect_map (f a) (\<lambda>_. a))"

definition Effect_catchAll :: "'a effect \<Rightarrow> (error \<Rightarrow> 'a effect) \<Rightarrow> 'a effect" where
  "Effect_catchAll m h =
     (\<lambda>s. case m s of (Inl e, s') \<Rightarrow> h e s' | (Inr a, s') \<Rightarrow> (Inr a, s'))"

text \<open>
  \<^verbatim>\<open>Effect.all\<close> on an array runs the effects one after the other, in order, and stops
  at the first failure; on a pair it does the same and returns the pair.
\<close>

fun Effect_all :: "'a effect list \<Rightarrow> 'a list effect" where
  "Effect_all [] = Effect_succeed []"
| "Effect_all (m # ms) =
     Effect_flatMap m (\<lambda>a. Effect_map (Effect_all ms) (\<lambda>as. a # as))"

definition Effect_all2 :: "'a effect \<Rightarrow> 'b effect \<Rightarrow> ('a \<times> 'b) effect" where
  "Effect_all2 m n = Effect_flatMap m (\<lambda>a. Effect_map n (\<lambda>b. (a, b)))"

text \<open>\<^verbatim>\<open>Effect.forEach(xs, f, { discard: true })\<close>.\<close>

fun Effect_forEach_discard :: "'a list \<Rightarrow> ('a \<Rightarrow> 'b effect) \<Rightarrow> unit effect" where
  "Effect_forEach_discard [] f = Effect_succeed ()"
| "Effect_forEach_discard (x # xs) f =
     Effect_flatMap (f x) (\<lambda>_. Effect_forEach_discard xs f)"

section \<open>The collaborators: file system, HTTP client, JSON, schemas\<close>

definition readFileString :: "string \<Rightarrow> document effect" where
  "readFileString p = (\<lambda>s. case s p of None \<Rightarrow> (Inl SystemError, s) | Some t \<Rightarrow> (Inr t, s))"

definition writeFileString :: "env \<Rightarrow> string \<Rightarrow> document \<Rightarrow> unit effect" where
  "writeFileString E p t =
     (\<lambda>s. if denied E p then (Inl SystemError, s) else (Inr (), s(p \<mapsto> t)))"

definition exists :: "string \<Rightarrow> bool effect" where
  "exists p = (\<lambda>s. (Inr (s p \<noteq> None), s))"

text \<open>\<^verbatim>\<open>fs.remove(path, { force: true })\<close>: a path that does not exist is not an error.\<close>

definition remove_force :: "env \<Rightarrow> string \<Rightarrow> unit effect" where
  "remove_force E p =
     (\<lambda>s. if denied E p then (Inl SystemError, s) else (Inr (), s(p := None)))"

definition HttpClient_get :: "env \<Rightarrow> request \<Rightarrow> (request \<times> document) effect" where
  "HttpClient_get E r =
     (case http E r of None \<Rightarrow> Effect_fail (RequestError r)
      | Some body \<Rightarrow> Effect_succeed (r, body))"

definition response_json :: "request \<times> document \<Rightarrow> json effect" where
  "response_json res =
     (case snd res of NotJson \<Rightarrow> Effect_fail (ResponseError (fst res))
      | JsonText j \<Rightarrow> Effect_succeed j)"

definition JSON_parse :: "document \<Rightarrow> json effect" where
  "JSON_parse input =
     (case input of NotJson \<Rightarrow> Effect_fail InvalidJSON | JsonText j \<Rightarrow> Effect_succeed j)"

text \<open>
  \<^verbatim>\<open>JSON.stringify\<close> writes a valid date as its ISO string, which
  \<^verbatim>\<open>Schema.DateFromString\<close> reads back to the same time, and an Invalid Date as
  \<^verbatim>\<open>null\<close>. So the text written for a value parses and decodes to that value when all
  its dates are valid, and does not decode otherwise.
\<close>

definition datesValid :: "json \<Rightarrow> bool" where
  "datesValid data =
     (case data of
        JsonList rs \<Rightarrow> list_all validDates rs
      | JsonPage n rs \<Rightarrow> list_all validDates rs
      | JsonItem r \<Rightarrow> validDates r
      | JsonNulls j \<Rightarrow> True
      | JsonOther \<Rightarrow> True)"

definition stringifyJson :: "json \<Rightarrow> document" where
  "stringifyJson data = JsonText (if datesValid data then data else JsonNulls data)"

fun reviewedPreprintItemCodec :: "json \<Rightarrow> ReviewedPreprint option" where
  "reviewedPreprintItemCodec (JsonItem r) = Some r"
| "reviewedPreprintItemCodec _ = None"

fun reviewedPreprintsCodec :: "json \<Rightarrow> ReviewedPreprints option" where
  "reviewedPreprintsCodec (JsonList rs) = Some rs"
| "reviewedPreprintsCodec _ = None"

fun paginatedReviewedPreprintsCodec :: "json \<Rightarrow> (int \<times> ReviewedPreprints) option" where
  "paginatedReviewedPreprintsCodec (JsonPage n rs) = Some (n, rs)"
| "paginatedReviewedPreprintsCodec _ = None"

definition Schema_decodeUnknown :: "(json \<Rightarrow> 'a option) \<Rightarrow> json \<Rightarrow> 'a effect" where
  "Schema_decodeUnknown codec j =
     (case codec j of None \<Rightarrow> Effect_fail ParseError | Some a \<Rightarrow> Effect_succeed a)"

section \<open>Arrays and orders of the \<^verbatim>\<open>effect\<close> package\<close>

text \<open>
  \<^verbatim>\<open>Array.appendAll(self, that)\<close> is \<^verbatim>\<open>self.concat(that)\<close>. The call in the source is the
  data-last one, \<^verbatim>\<open>Array.appendAll(that)(self)\<close>.
\<close>

definition Array_appendAll :: "'a list \<Rightarrow> 'a list \<Rightarrow> 'a list" where
  "Array_appendAll self that = self @ that"

text \<open>
  \<^verbatim>\<open>Array.dedupeWith\<close>: the output starts with the head; every later element is pushed
  when it is equivalent to no element of the output so far.
\<close>

fun dedupeWith_loop :: "('a \<Rightarrow> 'a \<Rightarrow> bool) \<Rightarrow> 'a list \<Rightarrow> 'a list \<Rightarrow> 'a list" where
  "dedupeWith_loop isEquivalent out [] = out"
| "dedupeWith_loop isEquivalent out (r # rest) =
     (if list_all (\<lambda>a. \<not> isEquivalent r a) out
      then dedupeWith_loop isEquivalent (out @ [r]) rest
      else dedupeWith_loop isEquivalent out rest)"

fun Array_dedupeWith :: "('a \<Rightarrow> 'a \<Rightarrow> bool) \<Rightarrow> 'a list \<Rightarrow> 'a list" where
  "Array_dedupeWith isEquivalent [] = []"
| "Array_dedupeWith isEquivalent (x # rest) = dedupeWith_loop isEquivalent [x] rest"

text \<open>
  The comparisons \<^verbatim>\<open>===\<close> and \<^verbatim>\<open><\<close> of two numbers: both are false when one of the
  numbers is \<^verbatim>\<open>NaN\<close>.
\<close>

definition number_eq :: "number \<Rightarrow> number \<Rightarrow> bool" where
  "number_eq a b = (case a of None \<Rightarrow> False | Some x \<Rightarrow> (case b of None \<Rightarrow> False | Some y \<Rightarrow> x = y))"

definition number_less :: "number \<Rightarrow> number \<Rightarrow> bool" where
  "number_less a b = (case a of None \<Rightarrow> False | Some x \<Rightarrow> (case b of None \<Rightarrow> False | Some y \<Rightarrow> x < y))"

text \<open>
  The comparison \<^verbatim>\<open>>=\<close>, in which the sort invariant is stated, is false for \<^verbatim>\<open>NaN\<close>
  as well.
\<close>

definition number_ge :: "number \<Rightarrow> number \<Rightarrow> bool" where
  "number_ge a b = (case a of None \<Rightarrow> False | Some x \<Rightarrow> (case b of None \<Rightarrow> False | Some y \<Rightarrow> y \<le> x))"

text \<open>
  An order returns \<open>-1\<close>, \<open>0\<close> or \<open>1\<close>. \<^verbatim>\<open>Order.number\<close> is
  \<^verbatim>\<open>make((self, that) => self < that ? -1 : 1)\<close>, and \<^verbatim>\<open>make\<close> answers \<open>0\<close> when
  \<^verbatim>\<open>self === that\<close> before it compares; so with a \<^verbatim>\<open>NaN\<close> on either side the answer is
  \<open>1\<close>. The orders that \<^verbatim>\<open>mapInput\<close> and \<^verbatim>\<open>reverse\<close> build go through \<^verbatim>\<open>make\<close> too, but
  they are applied to two distinct objects of the array, which are never \<^verbatim>\<open>===\<close>.
\<close>

type_synonym 'a Order = "'a \<Rightarrow> 'a \<Rightarrow> int"

definition Order_number :: "number Order" where
  "Order_number self that =
     (if number_eq self that then 0 else if number_less self that then - 1 else 1)"

definition Order_mapInput :: "'b Order \<Rightarrow> ('a \<Rightarrow> 'b) \<Rightarrow> 'a Order" where
  "Order_mapInput ord f = (\<lambda>b1 b2. ord (f b1) (f b2))"

definition Order_reverse :: "'a Order \<Rightarrow> 'a Order" where
  "Order_reverse ord = (\<lambda>a b. ord b a)"

text \<open>
  \<^verbatim>\<open>Array.sort\<close> copies the array and calls \<^verbatim>\<open>Array.prototype.sort\<close> with the order as
  comparator. That sort is stable, and for a consistent comparator its result is the
  stable sorted array whatever the engine. For a comparator that is not consistent (here:
  when a time is \<^verbatim>\<open>NaN\<close>) the order is the engine's; the model is the insertion sort that
  engines run on short arrays: each element in turn, from the second, is compared with
  the elements before it, from the nearest one, and moves in front of those it is less
  than. \<open>insert_back\<close> holds the part sorted so far with its last element first.
\<close>

fun insert_back :: "'a Order \<Rightarrow> 'a \<Rightarrow> 'a list \<Rightarrow> 'a list" where
  "insert_back ord x [] = [x]"
| "insert_back ord x (y # ys) =
     (if ord x y < 0 then y # insert_back ord x ys else x # y # ys)"

definition Array_sort :: "'a Order \<Rightarrow> 'a list \<Rightarrow> 'a list" where
  "Array_sort ord xs = rev (foldl (\<lambda>out x. insert_back ord x out) [] xs)"

text \<open>\<^verbatim>\<open>xs.slice(start, end)\<close> for indices that are not negative.\<close>

definition Array_slice :: "nat \<Rightarrow> nat \<Rightarrow> 'a list \<Rightarrow> 'a list" where
  "Array_slice start stop xs = drop start (take stop xs)"

section \<open>queries/reviewed-preprints.ts\<close>

definition getCachedFilePath :: string where
  "getCachedFilePath = ''.cached/reviewed-preprints''"

definition getCachedListFile :: string where
  "getCachedListFile = getCachedFilePath @ ''.json''"

definition getCachedListFileNew :: string where
  "getCachedListFileNew = getCachedFilePath @ ''-new.json''"

definition getCachedFile :: "string \<Rightarrow> string" where
  "getCachedFile msid = getCachedFilePath @ ''/'' @ msid @ ''.json''"

text \<open>
  \<^verbatim>\<open>retrieveIndividualReviewedPreprints\<close>: the argument is a list of \<^verbatim>\<open>{ msid, path }\<close>,
  the result a list of \<^verbatim>\<open>{ msid, path, result }\<close>.
\<close>

definition retrieveIndividualReviewedPreprints ::
  "env \<Rightarrow> (string \<times> string) list \<Rightarrow> (string \<times> string \<times> ReviewedPreprint) list effect" where
  "retrieveIndividualReviewedPreprints E reviewedPreprints =
     Effect_tap
       (Effect_all
         (map (\<lambda>reviewedPreprint.
                 Effect_map
                   (Effect_flatMap
                     (Effect_flatMap
                       (HttpClient_get E (Item (fst reviewedPreprint)))
                       response_json)
                     (Schema_decodeUnknown reviewedPreprintItemCodec))
                   (\<lambda>result. (fst reviewedPreprint, snd reviewedPreprint, result)))
              reviewedPreprints))
       (\<lambda>results.
          Effect_all
            (map (\<lambda>r. writeFileString E (fst (snd r)) (stringifyJson (JsonItem (snd (snd r)))))
                 results))"

definition reviewedPreprintsTopUpPath :: "nat \<Rightarrow> nat \<Rightarrow> request" where
  "reviewedPreprintsTopUpPath limit page = ListPage page (min limit 100)"

text \<open>\<^verbatim>\<open>getReviewedPreprintsTopUpPage\<close> (the log of the URL is left out).\<close>

definition getReviewedPreprintsTopUpPage :: "env \<Rightarrow> nat \<Rightarrow> nat \<Rightarrow> ReviewedPreprints effect" where
  "getReviewedPreprintsTopUpPage E limit page =
     Effect_map
       (Effect_map
         (Effect_flatMap
           (Effect_flatMap
             (Effect_flatMap
               (Effect_succeed (reviewedPreprintsTopUpPath limit page))
               (HttpClient_get E))
             response_json)
           (Schema_decodeUnknown paginatedReviewedPreprintsCodec))
         (\<lambda>response. snd response))
       (map (\<lambda>item. item\<lparr>hash := Some (md5 E item)\<rparr>))"

definition getCachedReviewedPreprints :: "string option \<Rightarrow> ReviewedPreprints effect" where
  "getCachedReviewedPreprints file =
     Effect_flatMap
       (Effect_catchAll
         (Effect_flatMap
           (readFileString (case file of None \<Rightarrow> getCachedListFile | Some f \<Rightarrow> f))
           JSON_parse)
         (\<lambda>_. Effect_succeed (JsonList [])))
       (Schema_decodeUnknown reviewedPreprintsCodec)"

definition missingIndividualReviewedPreprints :: "(string \<times> string) list effect" where
  "missingIndividualReviewedPreprints =
     Effect_map
       (Effect_flatMap
         (Effect_map (getCachedReviewedPreprints None) (map id'))
         (\<lambda>paths.
            Effect_all
              (map (\<lambda>msid.
                      Effect_map
                        (Effect_catchAll
                          (exists (getCachedFilePath @ ''/'' @ msid @ ''.json''))
                          (\<lambda>_. Effect_succeed False))
                        (\<lambda>exists. (msid, getCachedFile msid, exists)))
                   paths)))
       (\<lambda>results.
          map (\<lambda>r. (fst r, fst (snd r))) (filter (\<lambda>r. \<not> snd (snd r)) results))"

definition retrieveMissingIndividualReviewedPreprints ::
  "env \<Rightarrow> (string \<times> string \<times> ReviewedPreprint) list effect" where
  "retrieveMissingIndividualReviewedPreprints E =
     Effect_flatMap missingIndividualReviewedPreprints (retrieveIndividualReviewedPreprints E)"

text \<open>
  \<^verbatim>\<open>getReviewedPreprintsTopUp\<close>, in the three steps of its pipe: the page number, the
  list of pages, and the slice of the concatenated pages. \<^verbatim>\<open>limit\<close> is a positive
  integer (the command line accepts 1 to 100) and \<^verbatim>\<open>offset\<close> the length of an array;
  for those \<^verbatim>\<open>Math.floor(a / b)\<close> is \<open>div\<close> and \<^verbatim>\<open>%\<close> is \<open>mod\<close>.
\<close>

definition topUpPage :: "nat \<Rightarrow> nat \<Rightarrow> nat" where
  "topUpPage limit offset = (if offset > 0 then (offset + limit) div limit else 1)"

definition topUpPages :: "nat \<Rightarrow> nat \<Rightarrow> nat list" where
  "topUpPages limit offset =
     (let page = topUpPage limit offset
      in page # (if page > 0 \<and> offset mod limit > 0 then [page + 1] else []))"

definition topUpSlice :: "nat \<Rightarrow> nat \<Rightarrow> 'a list \<Rightarrow> 'a list" where
  "topUpSlice limit offset results =
     Array_slice (offset mod limit) ((offset mod limit) + limit) results"

definition getReviewedPreprintsTopUp :: "env \<Rightarrow> nat \<Rightarrow> nat \<Rightarrow> ReviewedPreprints effect" where
  "getReviewedPreprintsTopUp E limit offset =
     Effect_map
       (Effect_map
         (Effect_all
           (map (\<lambda>page. getReviewedPreprintsTopUpPage E limit page) (topUpPages limit offset)))
         concat)
       (topUpSlice limit offset)"

definition reviewedPreprintsTopUpWrite :: "env \<Rightarrow> nat \<Rightarrow> document effect" where
  "reviewedPreprintsTopUpWrite E limit =
     Effect_tap
       (Effect_map
         (Effect_flatMap
           (getCachedReviewedPreprints None)
           (\<lambda>cached. getReviewedPreprintsTopUp E limit (length cached)))
         (\<lambda>reviewedPreprints. stringifyJson (JsonList reviewedPreprints)))
       (\<lambda>reviewedPreprints. writeFileString E getCachedListFileNew reviewedPreprints)"

definition statusDateOrder :: "ReviewedPreprint Order" where
  "statusDateOrder = Order_reverse (Order_mapInput Order_number (\<lambda>item. statusDate item))"

definition reviewedPreprintsTopUpCombine :: "env \<Rightarrow> document effect" where
  "reviewedPreprintsTopUpCombine E =
     Effect_tap
       (Effect_map
         (Effect_map
           (Effect_map
             (Effect_map
               (Effect_all2
                 (getCachedReviewedPreprints None)
                 (getCachedReviewedPreprints (Some getCachedListFileNew)))
               (\<lambda>(oldList, newList). Array_appendAll newList oldList))
             (Array_dedupeWith (\<lambda>a b. id' a = id' b)))
           (Array_sort statusDateOrder))
         (\<lambda>reviewedPreprints. stringifyJson (JsonList reviewedPreprints)))
       (\<lambda>reviewedPreprints. writeFileString E getCachedListFile reviewedPreprints)"

definition reviewedPreprintsTopUpInvalidate :: "env \<Rightarrow> unit effect" where
  "reviewedPreprintsTopUpInvalidate E =
     Effect_flatMap
       (Effect_map
         (getCachedReviewedPreprints (Some getCachedListFileNew))
         (map (\<lambda>r. getCachedFile (id' r))))
       (\<lambda>paths. Effect_forEach_discard paths (\<lambda>path. remove_force E path))"

section \<open>cli/top-up-reviewed-preprints.ts: the second copy of the top-up arithmetic\<close>

definition cli_topUpPage :: "nat \<Rightarrow> nat \<Rightarrow> nat" where
  "cli_topUpPage limit offset = (if offset > 0 then (offset + limit) div limit else 1)"

definition cli_topUpPages :: "nat \<Rightarrow> nat \<Rightarrow> nat list" where
  "cli_topUpPages limit offset =
     (let page = cli_topUpPage limit offset
      in page # (if page > 0 \<and> offset mod limit > 0 then [page + 1] else []))"

definition cli_topUpSlice :: "nat \<Rightarrow> nat \<Rightarrow> 'a list \<Rightarrow> 'a list" where
  "cli_topUpSlice limit offset results =
     Array_slice (offset mod limit) ((offset mod limit) + limit) results"

section \<open>Definitions used to state and prove the properties\<close>

text \<open>
  The pure part of \<^verbatim>\<open>reviewedPreprintsTopUpCombine\<close> (the three maps after the two reads)
  under one name, and the scan of \<^verbatim>\<open>Array.dedupeWith\<close> for the equivalence "same id",
  with the set of ids seen so far.
\<close>

fun keepFirst :: "string set \<Rightarrow> ReviewedPreprints \<Rightarrow> ReviewedPreprints" where
  "keepFirst seen [] = []"
| "keepFirst seen (r # rest) =
     (if id' r \<in> seen then keepFirst seen rest else r # keepFirst (insert (id' r) seen) rest)"

definition merged :: "ReviewedPreprints \<Rightarrow> ReviewedPreprints \<Rightarrow> ReviewedPreprints" where
  "merged oldList newList =
     Array_sort statusDateOrder
       (Array_dedupeWith (\<lambda>a b. id' a = id' b) (Array_appendAll newList oldList))"

text \<open>
  What a list of results amounts to when they are taken in order up to the first failure,
  and what the remote gives for one item and for one page: the request, the parse of the
  body and the decoding, without the store (which none of them touches).
\<close>

fun collect :: "(error + 'a) list \<Rightarrow> error + 'a list" where
  "collect [] = Inr []"
| "collect (x # xs) =
     (case x of Inl e \<Rightarrow> Inl e
      | Inr a \<Rightarrow> (case collect xs of Inl e \<Rightarrow> Inl e | Inr as \<Rightarrow> Inr (a # as)))"

definition fetchItem :: "env \<Rightarrow> string \<Rightarrow> error + ReviewedPreprint" where
  "fetchItem E msid =
     (case http E (Item msid) of
        None \<Rightarrow> Inl (RequestError (Item msid))
      | Some NotJson \<Rightarrow> Inl (ResponseError (Item msid))
      | Some (JsonText j) \<Rightarrow>
          (case reviewedPreprintItemCodec j of None \<Rightarrow> Inl ParseError | Some r \<Rightarrow> Inr r))"

definition fetchPage :: "env \<Rightarrow> nat \<Rightarrow> nat \<Rightarrow> error + ReviewedPreprints" where
  "fetchPage E limit page =
     (case http E (ListPage page (min limit 100)) of
        None \<Rightarrow> Inl (RequestError (ListPage page (min limit 100)))
      | Some NotJson \<Rightarrow> Inl (ResponseError (ListPage page (min limit 100)))
      | Some (JsonText j) \<Rightarrow>
          (case paginatedReviewedPreprintsCodec j of
             None \<Rightarrow> Inl ParseError
           | Some response \<Rightarrow> Inr (map (\<lambda>item. item\<lparr>hash := Some (md5 E item)\<rparr>) (snd response))))"

text \<open>
  Sample data: three records (two of them with the same id), a store with a canonical
  list, a delta list and one detail file, a remote that answers no request and one that
  answers every request.
\<close>

definition exOld :: ReviewedPreprint where
  "exOld = \<lparr>id' = ''a'', title = ''old'', published = Some 0, statusDate = Some 1, hash = None\<rparr>"

definition exNew :: ReviewedPreprint where
  "exNew = \<lparr>id' = ''a'', title = ''new'', published = Some 0, statusDate = Some 2, hash = None\<rparr>"

definition exOther :: ReviewedPreprint where
  "exOther = \<lparr>id' = ''b'', title = ''other'', published = Some 0, statusDate = Some 3, hash = None\<rparr>"

definition exStore :: fs where
  "exStore = [getCachedListFile \<mapsto> JsonText (JsonList [exOld, exOther]),
              getCachedListFileNew \<mapsto> JsonText (JsonList [exNew]),
              getCachedFile ''a'' \<mapsto> JsonText (JsonItem exOld)]"

text \<open>
  A canonical list whose second record has a \<^verbatim>\<open>statusDate\<close> that is not a date, and no
  delta file.
\<close>

definition exP :: ReviewedPreprint where
  "exP = \<lparr>id' = ''p'', title = ''p'', published = Some 0, statusDate = Some 1, hash = None\<rparr>"

definition exX :: ReviewedPreprint where
  "exX = \<lparr>id' = ''x'', title = ''x'', published = Some 0, statusDate = None, hash = None\<rparr>"

definition exQ :: ReviewedPreprint where
  "exQ = \<lparr>id' = ''q'', title = ''q'', published = Some 0, statusDate = Some 5, hash = None\<rparr>"

definition exBadStore :: fs where
  "exBadStore = [getCachedListFile \<mapsto> JsonText (JsonList [exP, exX, exQ])]"

definition offlineEnv :: env where
  "offlineEnv = \<lparr>http = (\<lambda>r. None), md5 = (\<lambda>item. ''''), denied = (\<lambda>p. False)\<rparr>"

definition servingEnv :: env where
  "servingEnv =
     \<lparr>http = (\<lambda>r. case r of
                ListPage page perPage \<Rightarrow> Some (JsonText (JsonPage 9 [exOther]))
              | Item msid \<Rightarrow> Some (JsonText (JsonItem exOther))),
      md5 = (\<lambda>item. ''d41d''),
      denied = (\<lambda>p. False)\<rparr>"

section \<open>Paths and cached lists\<close>

lemma cached_path_neq: "getCachedListFile \<noteq> getCachedListFileNew"
  by (simp add: getCachedListFile_def getCachedListFileNew_def)

lemma getCachedFile_inj: "getCachedFile a = getCachedFile b \<longleftrightarrow> a = b"
  by (simp add: getCachedFile_def)

lemma getCached_run:
  "getCachedReviewedPreprints file s =
     (case s (case file of None \<Rightarrow> getCachedListFile | Some f \<Rightarrow> f) of
        None \<Rightarrow> (Inr [], s)
      | Some NotJson \<Rightarrow> (Inr [], s)
      | Some (JsonText j) \<Rightarrow>
          (case reviewedPreprintsCodec j of None \<Rightarrow> (Inl ParseError, s) | Some rs \<Rightarrow> (Inr rs, s)))"
  by (simp add: getCachedReviewedPreprints_def Effect_flatMap_def Effect_catchAll_def
      readFileString_def JSON_parse_def Schema_decodeUnknown_def Effect_succeed_def Effect_fail_def
      split: option.splits document.splits)

lemma getCached_state: "snd (getCachedReviewedPreprints file s) = s"
  by (simp add: getCached_run split: option.splits document.splits)

lemma getCached_same_file:
  assumes "s' p = s p"
    and "getCachedReviewedPreprints (Some p) s = (Inr xs, s)"
  shows "getCachedReviewedPreprints (Some p) s' = (Inr xs, s')"
proof (cases "s p")
  case None
  with assms show ?thesis by (simp add: getCached_run)
next
  case (Some d)
  show ?thesis
  proof (cases d)
    case NotJson
    with Some assms show ?thesis by (simp add: getCached_run)
  next
    case (JsonText j)
    with Some assms show ?thesis
      by (cases "reviewedPreprintsCodec j") (simp_all add: getCached_run)
  qed
qed

section \<open>Effects that leave the store alone\<close>

lemma Effect_all_succeed:
  "(\<forall>x\<in>set xs. f x = Effect_succeed (g x)) \<Longrightarrow> Effect_all (map f xs) = Effect_succeed (map g xs)"
  by (induction xs) (simp_all add: Effect_flatMap_def Effect_map_def Effect_succeed_def)

lemma Effect_all_pure:
  "(\<forall>x\<in>set xs. f x = (\<lambda>s. (g x, s))) \<Longrightarrow> Effect_all (map f xs) = (\<lambda>s. (collect (map g xs), s))"
proof (induction xs)
  case Nil
  show ?case by (simp add: Effect_succeed_def)
next
  case (Cons x xs)
  then have "f x = (\<lambda>s. (g x, s))" and "Effect_all (map f xs) = (\<lambda>s. (collect (map g xs), s))"
    by simp_all
  then show ?case
    by (auto simp: Effect_flatMap_def Effect_map_def Effect_succeed_def fun_eq_iff split: sum.splits)
qed

lemma Effect_all_read:
  "(\<forall>x\<in>set xs. f x = (\<lambda>s. (Inr (g x s), s))) \<Longrightarrow>
     Effect_all (map f xs) = (\<lambda>s. (Inr (map (\<lambda>x. g x s) xs), s))"
proof (induction xs)
  case Nil
  show ?case by (simp add: Effect_succeed_def)
next
  case (Cons x xs)
  then have "f x = (\<lambda>s. (Inr (g x s), s))"
    and "Effect_all (map f xs) = (\<lambda>s. (Inr (map (\<lambda>x. g x s) xs), s))"
    by simp_all
  then show ?case
    by (simp add: Effect_flatMap_def Effect_map_def Effect_succeed_def fun_eq_iff)
qed

lemma collect_Inl_iff: "isl (collect xs) \<longleftrightarrow> (\<exists>x\<in>set xs. isl x)"
  by (induction xs) (auto split: sum.splits)

lemma collect_first:
  "collect xs = Inl e \<Longrightarrow> \<exists>i<length xs. xs ! i = Inl e \<and> (\<forall>j<i. \<not> isl (xs ! j))"
proof (induction xs)
  case Nil
  then show ?case by simp
next
  case (Cons x xs)
  show ?case
  proof (cases x)
    case (Inl e')
    with Cons.prems have "e' = e" by simp
    with Inl have "(x # xs) ! 0 = Inl e \<and> (\<forall>j<0. \<not> isl ((x # xs) ! j))" by simp
    then show ?thesis by blast
  next
    case (Inr a)
    with Cons.prems have "collect xs = Inl e" by (simp split: sum.splits)
    from Cons.IH [OF this] obtain i where i: "i < length xs" "xs ! i = Inl e" "\<forall>j<i. \<not> isl (xs ! j)"
      by blast
    have "\<forall>j<Suc i. \<not> isl ((x # xs) ! j)"
    proof (intro allI impI)
      fix j assume "j < Suc i"
      then show "\<not> isl ((x # xs) ! j)" using i(3) Inr by (cases j) simp_all
    qed
    with i(1,2) have "Suc i < length (x # xs) \<and> (x # xs) ! Suc i = Inl e \<and> (\<forall>j<Suc i. \<not> isl ((x # xs) ! j))"
      by simp
    then show ?thesis by blast
  qed
qed

lemma page_run:
  "getReviewedPreprintsTopUpPage E limit page = (\<lambda>s. (fetchPage E limit page, s))"
  by (auto simp: getReviewedPreprintsTopUpPage_def fetchPage_def reviewedPreprintsTopUpPath_def
      HttpClient_get_def response_json_def Schema_decodeUnknown_def
      Effect_map_def Effect_flatMap_def Effect_succeed_def Effect_fail_def fun_eq_iff
      split: option.splits document.splits)

lemma item_run:
  "Effect_map
     (Effect_flatMap
       (Effect_flatMap (HttpClient_get E (Item (fst rp))) response_json)
       (Schema_decodeUnknown reviewedPreprintItemCodec))
     (\<lambda>result. (fst rp, snd rp, result))
   = (\<lambda>s. (map_sum (\<lambda>e. e) (\<lambda>result. (fst rp, snd rp, result)) (fetchItem E (fst rp)), s))"
  by (auto simp: fetchItem_def HttpClient_get_def response_json_def Schema_decodeUnknown_def
      Effect_map_def Effect_flatMap_def Effect_succeed_def Effect_fail_def fun_eq_iff
      split: option.splits document.splits)

lemma topUp_run:
  "getReviewedPreprintsTopUp E limit offset =
     (\<lambda>s. (map_sum (\<lambda>e. e) (\<lambda>pages. topUpSlice limit offset (concat pages))
               (collect (map (fetchPage E limit) (topUpPages limit offset))), s))"
proof -
  have "Effect_all (map (\<lambda>page. getReviewedPreprintsTopUpPage E limit page) (topUpPages limit offset))
        = (\<lambda>s. (collect (map (fetchPage E limit) (topUpPages limit offset)), s))"
    by (rule Effect_all_pure) (simp add: page_run)
  then show ?thesis
    by (auto simp: getReviewedPreprintsTopUp_def Effect_map_def Effect_flatMap_def
        Effect_succeed_def fun_eq_iff split: sum.splits)
qed

lemma topUpWrite_fail:
  assumes "getCachedReviewedPreprints None s = (Inr cached, s)"
    and "collect (map (fetchPage E limit) (topUpPages limit (length cached))) = Inl e"
  shows "reviewedPreprintsTopUpWrite E limit s = (Inl e, s)"
  using assms
  by (simp add: reviewedPreprintsTopUpWrite_def topUp_run Effect_tap_def Effect_map_def
      Effect_flatMap_def Effect_succeed_def)

lemma topUpPage_pos: "0 < limit \<Longrightarrow> 0 < topUpPage limit offset"
  by (simp add: topUpPage_def div_greater_zero_iff)

section \<open>Deduplication and sorting\<close>

lemma find_append_first:
  "find P (xs @ ys) = (case find P xs of None \<Rightarrow> find P ys | Some x \<Rightarrow> Some x)"
  by (induction xs) simp_all

lemma dedupeWith_loop_keepFirst:
  "dedupeWith_loop (\<lambda>a b. id' a = id' b) out rest = out @ keepFirst (id' ` set out) rest"
proof (induction rest arbitrary: out)
  case Nil
  show ?case by simp
next
  case (Cons r rest)
  have mem: "list_all (\<lambda>a. id' r \<noteq> id' a) out \<longleftrightarrow> id' r \<notin> id' ` set out"
    by (auto simp: list_all_iff)
  show ?case
    by (simp add: Cons.IH mem insert_commute)
qed

lemma dedupeWith_keepFirst:
  "Array_dedupeWith (\<lambda>a b. id' a = id' b) xs = keepFirst {} xs"
  by (cases xs) (simp_all add: dedupeWith_loop_keepFirst)

lemma keepFirst_ids: "id' ` set (keepFirst S xs) = id' ` set xs - S"
  by (induction xs arbitrary: S) auto

lemma keepFirst_subset: "set (keepFirst S xs) \<subseteq> set xs"
  by (induction xs arbitrary: S) auto

lemma keepFirst_distinct: "distinct (map id' (keepFirst S xs))"
proof (induction xs arbitrary: S)
  case Nil
  show ?case by simp
next
  case (Cons r rest)
  have "id' r \<notin> id' ` set (keepFirst (insert (id' r) S) rest)"
    by (simp add: keepFirst_ids)
  then show ?case by (simp add: Cons.IH)
qed

lemma keepFirst_append:
  "keepFirst S (xs @ ys) = keepFirst S xs @ keepFirst (S \<union> id' ` set xs) ys"
  by (induction xs arbitrary: S) (simp_all add: insert_absorb)

lemma keepFirst_filter:
  "distinct (map id' xs) \<Longrightarrow> keepFirst S xs = filter (\<lambda>r. id' r \<notin> S) xs"
proof (induction xs arbitrary: S)
  case Nil
  show ?case by simp
next
  case (Cons r rest)
  from Cons.prems have d: "distinct (map id' rest)" and n: "id' r \<notin> id' ` set rest" by simp_all
  have "filter (\<lambda>x. id' x \<notin> insert (id' r) S) rest = filter (\<lambda>x. id' x \<notin> S) rest"
    using n by (intro filter_cong refl) (metis imageI insert_iff)
  then show ?case by (simp add: Cons.IH [OF d])
qed

lemma keepFirst_find:
  "r \<in> set (keepFirst S xs) \<Longrightarrow> find (\<lambda>x. id' x = id' r) xs = Some r"
proof (induction xs arbitrary: S)
  case Nil
  then show ?case by simp
next
  case (Cons x rest)
  show ?case
  proof (cases "id' x \<in> S")
    case True
    with Cons.prems have r: "r \<in> set (keepFirst S rest)" by simp
    then have "id' r \<in> id' ` set (keepFirst S rest)" by blast
    then have "id' r \<notin> S" by (simp add: keepFirst_ids)
    with True have "id' x \<noteq> id' r" by auto
    then show ?thesis using Cons.IH [OF r] by simp
  next
    case False
    with Cons.prems have "r = x \<or> r \<in> set (keepFirst (insert (id' x) S) rest)" by auto
    then show ?thesis
    proof
      assume "r = x" then show ?thesis by simp
    next
      assume r: "r \<in> set (keepFirst (insert (id' x) S) rest)"
      then have "id' r \<in> id' ` set (keepFirst (insert (id' x) S) rest)" by blast
      then have "id' x \<noteq> id' r" by (auto simp: keepFirst_ids)
      then show ?thesis using Cons.IH [OF r] by simp
    qed
  qed
qed

lemma insert_back_mset: "mset (insert_back ord x ys) = add_mset x (mset ys)"
  by (induction ys) simp_all

lemma foldl_insert_back_mset:
  "mset (foldl (\<lambda>out x. insert_back ord x out) acc xs) = mset acc + mset xs"
  by (induction xs arbitrary: acc) (simp_all add: insert_back_mset)

lemma Array_sort_mset: "mset (Array_sort ord xs) = mset xs"
  by (simp add: Array_sort_def foldl_insert_back_mset)

lemma statusDateOrder_less:
  "statusDate x = Some a \<Longrightarrow> statusDate y = Some b \<Longrightarrow> statusDateOrder x y < 0 \<longleftrightarrow> b < a"
  by (simp add: statusDateOrder_def Order_reverse_def Order_mapInput_def Order_number_def
      number_eq_def number_less_def)

lemma insert_back_statusDate:
  assumes "statusDate x \<noteq> None" and "list_all (\<lambda>r. statusDate r \<noteq> None) ys"
  shows "insert_back statusDateOrder x ys = insort_key (\<lambda>r. the (statusDate r)) x ys"
  using assms(2)
proof (induction ys)
  case Nil
  show ?case by simp
next
  case (Cons y ys)
  from assms(1) obtain a where a: "statusDate x = Some a" by blast
  from Cons.prems obtain b where b: "statusDate y = Some b" by auto
  from Cons.prems have "list_all (\<lambda>r. statusDate r \<noteq> None) ys" by simp
  then have IH: "insert_back statusDateOrder x ys = insort_key (\<lambda>r. the (statusDate r)) x ys"
    by (rule Cons.IH)
  show ?case
    by (simp add: statusDateOrder_less [OF a b] IH a b not_less)
qed

lemma foldl_insert_back_statusDate:
  assumes "list_all (\<lambda>r. statusDate r \<noteq> None) xs" and "list_all (\<lambda>r. statusDate r \<noteq> None) acc"
  shows "foldl (\<lambda>out x. insert_back statusDateOrder x out) acc xs
         = fold (insort_key (\<lambda>r. the (statusDate r))) xs acc"
  using assms
proof (induction xs arbitrary: acc)
  case Nil
  show ?case by simp
next
  case (Cons x xs)
  from Cons.prems have x: "statusDate x \<noteq> None" and xs: "list_all (\<lambda>r. statusDate r \<noteq> None) xs"
    by simp_all
  have step: "insert_back statusDateOrder x acc = insort_key (\<lambda>r. the (statusDate r)) x acc"
    using x Cons.prems(2) by (rule insert_back_statusDate)
  have "list_all (\<lambda>r. statusDate r \<noteq> None) (insort_key (\<lambda>r. the (statusDate r)) x acc)"
    using x Cons.prems(2) by (simp add: list_all_iff set_insort_key)
  from Cons.IH [OF xs this] show ?case by (simp add: step)
qed

lemma rev_sort_rev:
  fixes t :: "'a \<Rightarrow> int"
  shows "rev (sort_key t (rev xs)) = sort_key (\<lambda>r. - t r) xs"
proof (rule properties_for_sort_key [symmetric])
  show "mset (rev (sort_key t (rev xs))) = mset xs" by simp
next
  fix k
  have "filter (\<lambda>x. t x = t k) (sort_key t (rev xs)) = filter (\<lambda>x. t x = t k) (rev xs)"
    by (rule sort_key_stable)
  then have "rev (filter (\<lambda>x. t x = t k) (sort_key t (rev xs))) = rev (filter (\<lambda>x. t x = t k) (rev xs))"
    by simp
  then have "filter (\<lambda>x. t x = t k) (rev (sort_key t (rev xs))) = filter (\<lambda>x. t x = t k) xs"
    by (simp add: rev_filter)
  moreover have "(\<lambda>x. - t k = - t x) = (\<lambda>x. t x = t k)" by auto
  ultimately show "filter (\<lambda>x. - t k = - t x) (rev (sort_key t (rev xs))) = filter (\<lambda>x. - t k = - t x) xs"
    by simp
next
  have "sorted (map t (sort_key t (rev xs)))" by simp
  then have "sorted_wrt (\<lambda>x y. t x \<le> t y) (sort_key t (rev xs))"
    by (simp add: sorted_wrt_map)
  then have "sorted_wrt (\<lambda>x y. - t y \<le> - t x) (sort_key t (rev xs))" by simp
  then have "sorted_wrt (\<lambda>x y. - t x \<le> - t y) (rev (sort_key t (rev xs)))"
    by (simp add: sorted_wrt_rev)
  then show "sorted (map (\<lambda>r. - t r) (rev (sort_key t (rev xs))))"
    by (simp add: sorted_wrt_map)
qed

lemma Array_sort_statusDate:
  assumes "list_all (\<lambda>r. statusDate r \<noteq> None) xs"
  shows "Array_sort statusDateOrder xs = sort_key (\<lambda>r. - the (statusDate r)) xs"
proof -
  have "foldl (\<lambda>out x. insert_back statusDateOrder x out) [] xs
        = fold (insort_key (\<lambda>r. the (statusDate r))) xs []"
    using assms by (rule foldl_insert_back_statusDate) simp
  also have "\<dots> = sort_key (\<lambda>r. the (statusDate r)) (rev xs)"
    by (simp add: sort_key_def foldr_conv_fold)
  finally show ?thesis by (simp add: Array_sort_def rev_sort_rev)
qed

lemma sort_key_append_sorted:
  "sort_key f (xs @ sort_key f ys) = sort_key f (xs @ ys)"
proof -
  have "sort_key f (sort_key f ys) = sort_key f ys"
    by (simp add: sort_key_id_if_sorted)
  then show ?thesis by (simp add: sort_key_def)
qed

lemma kept_keepFirst:
  "Array_dedupeWith (\<lambda>a b. id' a = id' b) (Array_appendAll newList oldList)
     = keepFirst {} newList @ keepFirst (id' ` set newList) oldList"
  by (simp add: dedupeWith_keepFirst Array_appendAll_def keepFirst_append)

lemma merged_mset:
  "mset (merged oldList newList)
     = mset (keepFirst {} newList @ keepFirst (id' ` set newList) oldList)"
  by (simp only: merged_def Array_sort_mset kept_keepFirst)

lemma merged_set:
  "set (merged oldList newList) = set (keepFirst {} (newList @ oldList))"
proof -
  have "set_mset (mset (merged oldList newList))
        = set_mset (mset (keepFirst {} newList @ keepFirst (id' ` set newList) oldList))"
    by (simp only: merged_mset)
  then show ?thesis by (simp add: keepFirst_append)
qed

lemma merged_eq:
  assumes "list_all (\<lambda>r. statusDate r \<noteq> None)
             (Array_dedupeWith (\<lambda>a b. id' a = id' b) (Array_appendAll newList oldList))"
  shows "merged oldList newList =
     sort_key (\<lambda>r. - the (statusDate r))
       (keepFirst {} newList @ keepFirst (id' ` set newList) oldList)"
proof -
  have "merged oldList newList =
      sort_key (\<lambda>r. - the (statusDate r))
        (Array_dedupeWith (\<lambda>a b. id' a = id' b) (Array_appendAll newList oldList))"
    unfolding merged_def using assms by (rule Array_sort_statusDate)
  then show ?thesis by (simp only: kept_keepFirst)
qed

lemma merged_distinct: "distinct (map id' (merged oldList newList))"
proof -
  let ?xs = "keepFirst {} newList @ keepFirst (id' ` set newList) oldList"
  have "?xs = keepFirst {} (newList @ oldList)" by (simp add: keepFirst_append)
  then have "distinct (map id' ?xs)" by (simp only: keepFirst_distinct)
  moreover have "mset (map id' (merged oldList newList)) = mset (map id' ?xs)"
    by (simp only: mset_map merged_mset)
  ultimately show ?thesis by (metis mset_eq_imp_distinct_iff)
qed

lemma merged_ids: "id' ` set (merged oldList newList) = id' ` set oldList \<union> id' ` set newList"
  by (auto simp: merged_set keepFirst_ids image_Un)

lemma merged_find:
  assumes "r \<in> set (merged oldList newList)"
  shows "find (\<lambda>x. id' x = id' r) (newList @ oldList) = Some r"
proof -
  from assms have "r \<in> set (keepFirst {} (newList @ oldList))"
    by (simp only: merged_set)
  then show ?thesis by (rule keepFirst_find)
qed

lemma merged_idem:
  assumes "list_all (\<lambda>r. statusDate r \<noteq> None)
             (Array_dedupeWith (\<lambda>a b. id' a = id' b) (Array_appendAll newList oldList))"
  shows "merged (merged oldList newList) newList = merged oldList newList"
proof -
  let ?V = "\<lambda>r. statusDate r \<noteq> None"
  let ?k = "\<lambda>r. - the (statusDate r)"
  let ?D = "keepFirst {} newList"
  let ?C = "keepFirst (id' ` set newList) oldList"
  let ?M = "merged oldList newList"
  let ?P = "\<lambda>r. id' r \<notin> id' ` set newList"
  have M: "?M = sort_key ?k (?D @ ?C)" using assms by (rule merged_eq)
  from assms have valid: "list_all ?V (?D @ ?C)" by (simp only: kept_keepFirst)
  have fD: "filter ?P ?D = []"
    using keepFirst_subset [of "{}" newList] by (auto simp: filter_empty_conv)
  have "\<forall>r\<in>set ?C. id' r \<notin> id' ` set newList"
    using keepFirst_ids [of "id' ` set newList" oldList] by blast
  then have fC: "filter ?P ?C = ?C"
    by (simp add: filter_id_conv)
  have "keepFirst (id' ` set newList) ?M = filter ?P ?M"
    by (rule keepFirst_filter) (rule merged_distinct)
  also have "\<dots> = sort_key ?k (filter ?P (?D @ ?C))"
    by (simp only: M filter_sort)
  also have "\<dots> = sort_key ?k ?C" by (simp add: fD fC)
  finally have second: "keepFirst (id' ` set newList) ?M = sort_key ?k ?C" .
  have "list_all ?V (?D @ sort_key ?k ?C)"
    using valid by (simp add: list_all_iff)
  then have "list_all ?V
      (Array_dedupeWith (\<lambda>a b. id' a = id' b) (Array_appendAll newList ?M))"
    by (simp only: kept_keepFirst second)
  then have "merged ?M newList = sort_key ?k (?D @ keepFirst (id' ` set newList) ?M)"
    by (rule merged_eq)
  then have "merged ?M newList = sort_key ?k (?D @ sort_key ?k ?C)"
    by (simp only: second)
  then show ?thesis by (simp add: sort_key_append_sorted M)
qed

lemma stringify_valid:
  "list_all validDates rs \<Longrightarrow> stringifyJson (JsonList rs) = JsonText (JsonList rs)"
  by (simp add: stringifyJson_def datesValid_def)

lemma stringify_item:
  "validDates r \<Longrightarrow> stringifyJson (JsonItem r) = JsonText (JsonItem r)"
  by (simp add: stringifyJson_def datesValid_def)

lemma combine_run:
  assumes "getCachedReviewedPreprints None s = (Inr oldList, s)"
    and "getCachedReviewedPreprints (Some getCachedListFileNew) s = (Inr newList, s)"
  shows "reviewedPreprintsTopUpCombine E s =
     (if denied E getCachedListFile then (Inl SystemError, s)
      else (Inr (stringifyJson (JsonList (merged oldList newList))),
            s(getCachedListFile \<mapsto> stringifyJson (JsonList (merged oldList newList)))))"
  using assms
  by (simp add: reviewedPreprintsTopUpCombine_def merged_def Effect_tap_def Effect_map_def
      Effect_all2_def Effect_flatMap_def Effect_succeed_def writeFileString_def)

lemma combine_success:
  assumes "reviewedPreprintsTopUpCombine E s = (Inr t, s')"
  shows "\<exists>oldList newList.
           getCachedReviewedPreprints None s = (Inr oldList, s)
         \<and> getCachedReviewedPreprints (Some getCachedListFileNew) s = (Inr newList, s)
         \<and> \<not> denied E getCachedListFile
         \<and> t = stringifyJson (JsonList (merged oldList newList))
         \<and> s' = s(getCachedListFile \<mapsto> stringifyJson (JsonList (merged oldList newList)))"
proof -
  obtain r1 where r1: "getCachedReviewedPreprints None s = (r1, s)"
    using getCached_state [of None s] by (cases "getCachedReviewedPreprints None s") simp
  obtain r2 where r2: "getCachedReviewedPreprints (Some getCachedListFileNew) s = (r2, s)"
    using getCached_state [of "Some getCachedListFileNew" s]
    by (cases "getCachedReviewedPreprints (Some getCachedListFileNew) s") simp
  from assms r1 obtain oldList where o: "r1 = Inr oldList"
    by (cases r1) (simp_all add: reviewedPreprintsTopUpCombine_def Effect_tap_def Effect_map_def
      Effect_all2_def Effect_flatMap_def Effect_succeed_def)
  from assms r1 r2 o obtain newList where n: "r2 = Inr newList"
    by (cases r2) (simp_all add: reviewedPreprintsTopUpCombine_def Effect_tap_def Effect_map_def
      Effect_all2_def Effect_flatMap_def Effect_succeed_def)
  from r1 r2 o n have run: "reviewedPreprintsTopUpCombine E s =
     (if denied E getCachedListFile then (Inl SystemError, s)
      else (Inr (stringifyJson (JsonList (merged oldList newList))),
            s(getCachedListFile \<mapsto> stringifyJson (JsonList (merged oldList newList)))))"
    by (simp add: combine_run)
  with assms have "\<not> denied E getCachedListFile" by (auto split: if_splits)
  with run assms r1 r2 o n show ?thesis by auto
qed

section \<open>Detail files: invalidation and backfill\<close>

lemma exists_run:
  "Effect_map
     (Effect_catchAll (exists (getCachedFilePath @ ''/'' @ msid @ ''.json''))
        (\<lambda>_. Effect_succeed False))
     (\<lambda>exists. (msid, getCachedFile msid, exists))
   = (\<lambda>s. (Inr (msid, getCachedFile msid, s (getCachedFile msid) \<noteq> None), s))"
  by (simp add: Effect_map_def Effect_catchAll_def Effect_flatMap_def Effect_succeed_def
      exists_def getCachedFile_def fun_eq_iff)

lemma missing_run:
  assumes "getCachedReviewedPreprints None s = (Inr cached, s)"
  shows "missingIndividualReviewedPreprints s =
     (Inr (map (\<lambda>m. (m, getCachedFile m))
             (filter (\<lambda>m. s (getCachedFile m) = None) (map id' cached))), s)"
proof -
  have all: "Effect_all
       (map (\<lambda>msid s. (Inr (msid, getCachedFile msid, s (getCachedFile msid) \<noteq> None), s)) ms)
     = (\<lambda>s. (Inr (map (\<lambda>m. (m, getCachedFile m, s (getCachedFile m) \<noteq> None)) ms), s))" for ms
    by (rule Effect_all_read) simp
  have flt: "map (\<lambda>r. (fst r, fst (snd r)))
          (filter (\<lambda>r. \<not> snd (snd r))
             (map (\<lambda>m. (m, getCachedFile m, s (getCachedFile m) \<noteq> None)) ms))
        = map (\<lambda>m. (m, getCachedFile m)) (filter (\<lambda>m. s (getCachedFile m) = None) ms)" for ms
    by (induction ms) simp_all
  have "missingIndividualReviewedPreprints s =
      (Inr (map (\<lambda>r. (fst r, fst (snd r)))
          (filter (\<lambda>r. \<not> snd (snd r))
             (map (\<lambda>m. (m, getCachedFile m, s (getCachedFile m) \<noteq> None)) (map id' cached)))), s)"
    unfolding missingIndividualReviewedPreprints_def exists_run all
    by (simp add: Effect_map_def Effect_flatMap_def Effect_succeed_def assms del: map_map)
  then show ?thesis by (simp only: flt)
qed

lemma writes_run:
  assumes "Effect_all (map (\<lambda>r. writeFileString E (pth r) (doc r)) rs) s = (Inr us, s')"
    and "\<forall>r\<in>set rs. \<forall>r'\<in>set rs. pth r = pth r' \<longrightarrow> doc r = doc r'"
  shows "(\<forall>p. p \<notin> pth ` set rs \<longrightarrow> s' p = s p) \<and> (\<forall>r\<in>set rs. s' (pth r) = Some (doc r))"
  using assms
proof (induction rs arbitrary: s us)
  case Nil
  then show ?case by (simp add: Effect_succeed_def)
next
  case (Cons x rs)
  let ?w = "\<lambda>r. writeFileString E (pth r) (doc r)"
  let ?s1 = "s(pth x \<mapsto> doc x)"
  have ok: "\<not> denied E (pth x)"
  proof
    assume "denied E (pth x)"
    then have "Effect_all (map ?w (x # rs)) s = (Inl SystemError, s)"
      by (simp add: Effect_flatMap_def writeFileString_def)
    with Cons.prems(1) show False by simp
  qed
  obtain res s2 where rest: "Effect_all (map ?w rs) ?s1 = (res, s2)"
    by (cases "Effect_all (map ?w rs) ?s1") blast
  from ok rest have run: "Effect_all (map ?w (x # rs)) s =
      (case res of Inl e \<Rightarrow> (Inl e, s2) | Inr as \<Rightarrow> (Inr (() # as), s2))"
    by (simp add: Effect_flatMap_def Effect_map_def Effect_succeed_def writeFileString_def
        split: sum.splits)
  from run Cons.prems(1) obtain us' where res: "res = Inr us'" and s2: "s2 = s'"
    by (cases res) simp_all
  from rest res s2 have rest': "Effect_all (map ?w rs) ?s1 = (Inr us', s')" by simp
  have cons: "\<forall>r\<in>set rs. \<forall>r'\<in>set rs. pth r = pth r' \<longrightarrow> doc r = doc r'"
    using Cons.prems(2) by (meson list.set_intros(2))
  note IH = Cons.IH [OF rest' cons]
  from IH have 1: "\<forall>p. p \<notin> pth ` set rs \<longrightarrow> s' p = ?s1 p" by (rule conjunct1)
  from IH have 2: "\<forall>r\<in>set rs. s' (pth r) = Some (doc r)" by (rule conjunct2)
  have x: "s' (pth x) = Some (doc x)"
  proof (cases "pth x \<in> pth ` set rs")
    case True
    then obtain r where r: "r \<in> set rs" "pth r = pth x" by auto
    with Cons.prems(2) have "doc r = doc x" by (meson list.set_intros)
    moreover from 2 r(1) have "s' (pth r) = Some (doc r)" by blast
    ultimately show ?thesis using r(2) by simp
  next
    case False
    with 1 have "s' (pth x) = ?s1 (pth x)" by blast
    then show ?thesis by simp
  qed
  have "\<forall>p. p \<notin> pth ` set (x # rs) \<longrightarrow> s' p = s p"
  proof (intro allI impI)
    fix p assume p: "p \<notin> pth ` set (x # rs)"
    then have "p \<notin> pth ` set rs" and "p \<noteq> pth x" by auto
    with 1 show "s' p = s p" by simp
  qed
  moreover have "\<forall>r\<in>set (x # rs). s' (pth r) = Some (doc r)"
    using x 2 by simp
  ultimately show ?case by blast
qed

lemma individual_run:
  "retrieveIndividualReviewedPreprints E rps s =
     (case collect (map (\<lambda>rp. map_sum (\<lambda>e. e) (\<lambda>result. (fst rp, snd rp, result))
                                (fetchItem E (fst rp))) rps) of
        Inl e \<Rightarrow> (Inl e, s)
      | Inr results \<Rightarrow>
          (case Effect_all
                  (map (\<lambda>r. writeFileString E (fst (snd r)) (stringifyJson (JsonItem (snd (snd r)))))
                       results) s of
             (Inl e, s') \<Rightarrow> (Inl e, s')
           | (Inr us, s') \<Rightarrow> (Inr results, s')))"
proof -
  let ?f = "\<lambda>reviewedPreprint.
                 Effect_map
                   (Effect_flatMap
                     (Effect_flatMap
                       (HttpClient_get E (Item (fst reviewedPreprint)))
                       response_json)
                     (Schema_decodeUnknown reviewedPreprintItemCodec))
                   (\<lambda>result. (fst reviewedPreprint, snd reviewedPreprint, result))"
  let ?g = "\<lambda>rp. map_sum (\<lambda>e. e) (\<lambda>result. (fst rp, snd rp, result)) (fetchItem E (fst rp))"
  have "\<forall>rp\<in>set rps. ?f rp = (\<lambda>s. (?g rp, s))" by (simp add: item_run)
  then have "Effect_all (map ?f rps) = (\<lambda>s. (collect (map ?g rps), s))"
    by (rule Effect_all_pure)
  then show ?thesis
    unfolding retrieveIndividualReviewedPreprints_def
    by (simp add: Effect_tap_def Effect_flatMap_def Effect_map_def Effect_succeed_def
        split: sum.splits prod.splits)
qed

lemma collect_fetch:
  "collect (map (\<lambda>rp. map_sum (\<lambda>e. e) (\<lambda>result. (fst rp, snd rp, result))
                          (fetchItem E (fst rp))) rps) = Inr results \<Longrightarrow>
     map (\<lambda>x. (fst x, fst (snd x))) results = rps
   \<and> (\<forall>x\<in>set results. fetchItem E (fst x) = Inr (snd (snd x)))"
proof (induction rps arbitrary: results)
  case Nil
  then show ?case by simp
next
  case (Cons rp rps)
  let ?g = "\<lambda>rp. map_sum (\<lambda>e. e) (\<lambda>result. (fst rp, snd rp, result)) (fetchItem E (fst rp))"
  from Cons.prems obtain r where r: "fetchItem E (fst rp) = Inr r"
    by (cases "fetchItem E (fst rp)") simp_all
  with Cons.prems obtain rest where rest: "collect (map ?g rps) = Inr rest"
    and res: "results = (fst rp, snd rp, r) # rest"
    by (cases "collect (map ?g rps)") auto
  from Cons.IH [OF rest] r res show ?case by simp
qed

lemma forEach_remove_ok:
  "\<forall>p\<in>set ps. \<not> denied E p \<Longrightarrow>
     Effect_forEach_discard ps (\<lambda>path. remove_force E path) s
       = (Inr (), (\<lambda>p. if p \<in> set ps then None else s p))"
proof (induction ps arbitrary: s)
  case Nil
  show ?case by (simp add: Effect_succeed_def)
next
  case (Cons q ps)
  then have q: "\<not> denied E q" and ps: "\<forall>p\<in>set ps. \<not> denied E p" by simp_all
  have "Effect_forEach_discard (q # ps) (\<lambda>path. remove_force E path) s
        = Effect_forEach_discard ps (\<lambda>path. remove_force E path) (s(q := None))"
    using q by (simp add: Effect_flatMap_def remove_force_def)
  also have "\<dots> = (Inr (), (\<lambda>p. if p \<in> set ps then None else (s(q := None)) p))"
    by (rule Cons.IH [OF ps])
  also have "\<dots> = (Inr (), (\<lambda>p. if p \<in> set (q # ps) then None else s p))"
    by (auto simp: fun_eq_iff)
  finally show ?case .
qed

lemma forEach_remove_success:
  "Effect_forEach_discard ps (\<lambda>path. remove_force E path) s = (Inr u, s') \<Longrightarrow>
     \<forall>p\<in>set ps. \<not> denied E p"
proof (induction ps arbitrary: s)
  case Nil
  show ?case by simp
next
  case (Cons q ps)
  have q: "\<not> denied E q"
  proof
    assume "denied E q"
    then have "Effect_forEach_discard (q # ps) (\<lambda>path. remove_force E path) s = (Inl SystemError, s)"
      by (simp add: Effect_flatMap_def remove_force_def)
    with Cons.prems show False by simp
  qed
  with Cons.prems
  have "Effect_forEach_discard ps (\<lambda>path. remove_force E path) (s(q := None)) = (Inr u, s')"
    by (simp add: Effect_flatMap_def remove_force_def)
  from Cons.IH [OF this] q show ?case by simp
qed

lemma invalidate_run:
  assumes "getCachedReviewedPreprints (Some getCachedListFileNew) s = (Inr delta, s)"
  shows "reviewedPreprintsTopUpInvalidate E s =
           Effect_forEach_discard (map (\<lambda>r. getCachedFile (id' r)) delta)
             (\<lambda>path. remove_force E path) s"
  using assms
  by (simp add: reviewedPreprintsTopUpInvalidate_def Effect_flatMap_def Effect_map_def
      Effect_succeed_def)

section \<open>Runs on the sample data\<close>

lemma ex_read_old: "getCachedReviewedPreprints None exStore = (Inr [exOld, exOther], exStore)"
  by (simp add: getCached_run exStore_def getCachedListFile_def getCachedListFileNew_def
      getCachedFile_def getCachedFilePath_def)

lemma ex_read_new:
  "getCachedReviewedPreprints (Some getCachedListFileNew) exStore = (Inr [exNew], exStore)"
  by (simp add: getCached_run exStore_def getCachedListFile_def getCachedListFileNew_def
      getCachedFile_def getCachedFilePath_def)

lemma ex_valid: "validDates exOld" "validDates exNew" "validDates exOther"
  by (simp_all add: validDates_def exOld_def exNew_def exOther_def)

lemma ex_kept:
  "Array_dedupeWith (\<lambda>a b. id' a = id' b) (Array_appendAll [exNew] [exOld, exOther])
     = [exNew, exOther]"
  by (simp add: Array_appendAll_def exOld_def exNew_def exOther_def)

lemma ex_merged: "merged [exOld, exOther] [exNew] = [exOther, exNew]"
  by (simp add: merged_def Array_appendAll_def Array_sort_def statusDateOrder_def
      Order_reverse_def Order_mapInput_def Order_number_def number_eq_def number_less_def
      exOld_def exNew_def exOther_def)

lemma ex_combine:
  "reviewedPreprintsTopUpCombine offlineEnv exStore =
     (Inr (JsonText (JsonList [exOther, exNew])),
      exStore(getCachedListFile \<mapsto> JsonText (JsonList [exOther, exNew])))"
  by (simp add: combine_run [OF ex_read_old ex_read_new] ex_merged offlineEnv_def
      stringify_valid ex_valid)

lemma ex_bad_read_old:
  "getCachedReviewedPreprints None exBadStore = (Inr [exP, exX, exQ], exBadStore)"
  by (simp add: getCached_run exBadStore_def)

lemma ex_bad_read_new:
  "getCachedReviewedPreprints (Some getCachedListFileNew) exBadStore = (Inr [], exBadStore)"
  by (simp add: getCached_run exBadStore_def getCachedListFile_def getCachedListFileNew_def)

lemma ex_bad_merged: "merged [exP, exX, exQ] [] = [exP, exX, exQ]"
  by (simp add: merged_def Array_appendAll_def Array_sort_def statusDateOrder_def
      Order_reverse_def Order_mapInput_def Order_number_def number_eq_def number_less_def
      exP_def exX_def exQ_def)

lemma ex_bad_text:
  "stringifyJson (JsonList [exP, exX, exQ]) = JsonText (JsonNulls (JsonList [exP, exX, exQ]))"
  by (simp add: stringifyJson_def datesValid_def validDates_def exX_def)

lemma ex_bad_combine:
  "reviewedPreprintsTopUpCombine offlineEnv exBadStore =
     (Inr (JsonText (JsonNulls (JsonList [exP, exX, exQ]))),
      exBadStore(getCachedListFile \<mapsto> JsonText (JsonNulls (JsonList [exP, exX, exQ]))))"
  by (simp add: combine_run [OF ex_bad_read_old ex_bad_read_new] ex_bad_merged ex_bad_text
      offlineEnv_def)

lemma ex_page: "getReviewedPreprintsTopUpPage servingEnv 2 p
     = Effect_succeed [exOther\<lparr>hash := Some ''d41d''\<rparr>]"
  by (simp add: page_run fetchPage_def servingEnv_def Effect_succeed_def)

lemma ex_fetch_offline: "fetchItem offlineEnv m = Inl (RequestError (Item m))"
  by (simp add: fetchItem_def offlineEnv_def)

lemma ex_fetch_serving: "fetchItem servingEnv m = Inr exOther"
  by (simp add: fetchItem_def servingEnv_def)

lemma ex_denied: "denied offlineEnv p = False" "denied servingEnv p = False"
  by (simp_all add: offlineEnv_def servingEnv_def)

lemma ex_invalidate:
  "reviewedPreprintsTopUpInvalidate offlineEnv exStore
     = (Inr (), exStore(getCachedFile ''a'' := None))"
  by (simp add: invalidate_run [OF ex_read_new] Effect_flatMap_def Effect_succeed_def
      remove_force_def ex_denied exNew_def)

lemma ex_backfill:
  "retrieveMissingIndividualReviewedPreprints servingEnv exStore
     = (Inr [(''b'', getCachedFile ''b'', exOther)],
        exStore(getCachedFile ''b'' \<mapsto> JsonText (JsonItem exOther)))"
proof -
  have absent: "filter (\<lambda>m. exStore (getCachedFile m) = None) (map id' [exOld, exOther]) = [''b'']"
    by (simp add: exStore_def exOld_def exOther_def getCachedFile_def getCachedListFile_def
        getCachedListFileNew_def getCachedFilePath_def)
  have "missingIndividualReviewedPreprints exStore = (Inr [(''b'', getCachedFile ''b'')], exStore)"
    by (simp only: missing_run [OF ex_read_old] absent) simp
  then show ?thesis
    by (simp add: retrieveMissingIndividualReviewedPreprints_def Effect_flatMap_def
        individual_run ex_fetch_serving Effect_map_def Effect_succeed_def writeFileString_def
        stringify_item ex_valid ex_denied)
qed

section \<open>The properties\<close>

subsection \<open>The merge\<close>

text \<open>
  Claim C1, as the specification states it: the merge concatenates canonical followed by
  delta and keeps the first record of every id, so that the canonical record wins over
  the delta record of the same id. The source calls \<^verbatim>\<open>Array.appendAll(oldList)(newList)\<close>,
  which is \<^verbatim>\<open>newList.concat(oldList)\<close>: the delta comes first. On the sample store the
  canonical list holds the record \<open>exOld\<close> and the delta the record \<open>exNew\<close> of the same id;
  the list written is \<open>[exOther, exNew]\<close>, without the canonical record.
\<close>

theorem combine_canonical_wins_counterexample:
  "snd (reviewedPreprintsTopUpCombine offlineEnv exStore) getCachedListFile
     = Some (JsonText (JsonList [exOther, exNew]))
   \<and> id' exOld = id' exNew \<and> exOld \<notin> set [exOther, exNew]"
  by (simp add: ex_combine) (simp add: exOld_def exNew_def exOther_def)

text \<open>
  Claim C1, amended: when the merge succeeds, the list it writes, whatever its dates,
  has every id of the canonical list and of the delta exactly once; each record kept is
  the first one of its id in the delta followed by the canonical list, so an id that the
  delta has takes the delta's record (delta wins over canonical) and any other id the
  canonical one.
\<close>

theorem combine_delta_wins:
  assumes "getCachedReviewedPreprints None s = (Inr oldList, s)"
    and "getCachedReviewedPreprints (Some getCachedListFileNew) s = (Inr newList, s)"
    and "reviewedPreprintsTopUpCombine E s = (Inr t, s')"
  shows "\<exists>rs. s' getCachedListFile = Some (stringifyJson (JsonList rs))
            \<and> distinct (map id' rs)
            \<and> id' ` set rs = id' ` set oldList \<union> id' ` set newList
            \<and> (\<forall>r\<in>set rs. find (\<lambda>x. id' x = id' r) (newList @ oldList) = Some r)
            \<and> (\<forall>r\<in>set rs. id' r \<in> id' ` set newList \<longrightarrow> r \<in> set newList)
            \<and> (\<forall>r\<in>set rs. id' r \<notin> id' ` set newList \<longrightarrow> r \<in> set oldList)"
proof -
  let ?rs = "merged oldList newList"
  from combine_success [OF assms(3)] assms(1,2)
  have s': "s' = s(getCachedListFile \<mapsto> stringifyJson (JsonList ?rs))" by auto
  have first: "\<forall>r\<in>set ?rs. find (\<lambda>x. id' x = id' r) (newList @ oldList) = Some r"
    by (simp add: merged_find)
  have "\<forall>r\<in>set ?rs. id' r \<in> id' ` set newList \<longrightarrow> r \<in> set newList"
  proof (intro ballI impI)
    fix r assume r: "r \<in> set ?rs" and "id' r \<in> id' ` set newList"
    then obtain x where x: "x \<in> set newList" "id' x = id' r" by auto
    then obtain y where y: "find (\<lambda>x. id' x = id' r) newList = Some y"
      by (cases "find (\<lambda>x. id' x = id' r) newList") (auto simp: find_None_iff)
    then have "find (\<lambda>x. id' x = id' r) (newList @ oldList) = Some y" by (simp add: find_append_first)
    with first r have "y = r" by simp
    with y show "r \<in> set newList" by (auto simp: find_Some_iff)
  qed
  moreover have "\<forall>r\<in>set ?rs. id' r \<notin> id' ` set newList \<longrightarrow> r \<in> set oldList"
  proof (intro ballI impI)
    fix r assume r: "r \<in> set ?rs" and new: "id' r \<notin> id' ` set newList"
    have "find (\<lambda>x. id' x = id' r) newList = None"
      unfolding find_None_iff
    proof
      assume "\<exists>x. x \<in> set newList \<and> id' x = id' r"
      then obtain x where "x \<in> set newList" and "id' x = id' r" by blast
      then have "id' r \<in> id' ` set newList" by (metis imageI)
      with new show False by contradiction
    qed
    then have none: "find (\<lambda>x. id' x = id' r) newList = None" .
    from first r have "find (\<lambda>x. id' x = id' r) (newList @ oldList) = Some r" by blast
    then have "find (\<lambda>x. id' x = id' r) oldList = Some r"
      by (simp add: find_append_first none)
    then show "r \<in> set oldList" by (auto simp: find_Some_iff)
  qed
  ultimately show ?thesis
    using s' first by (auto simp: merged_distinct merged_ids)
qed

theorem combine_delta_wins_witness:
  "getCachedReviewedPreprints None exStore = (Inr [exOld, exOther], exStore)
   \<and> getCachedReviewedPreprints (Some getCachedListFileNew) exStore = (Inr [exNew], exStore)
   \<and> reviewedPreprintsTopUpCombine offlineEnv exStore =
       (Inr (JsonText (JsonList [exOther, exNew])),
        exStore(getCachedListFile \<mapsto> JsonText (JsonList [exOther, exNew])))
   \<and> (\<exists>rs. (exStore(getCachedListFile \<mapsto> JsonText (JsonList [exOther, exNew]))) getCachedListFile
               = Some (stringifyJson (JsonList rs))
            \<and> distinct (map id' rs)
            \<and> id' ` set rs = id' ` set [exOld, exOther] \<union> id' ` set [exNew]
            \<and> (\<forall>r\<in>set rs. find (\<lambda>x. id' x = id' r) ([exNew] @ [exOld, exOther]) = Some r)
            \<and> (\<forall>r\<in>set rs. id' r \<in> id' ` set [exNew] \<longrightarrow> r \<in> set [exNew])
            \<and> (\<forall>r\<in>set rs. id' r \<notin> id' ` set [exNew] \<longrightarrow> r \<in> set [exOld, exOther]))"
  using combine_delta_wins [OF ex_read_old ex_read_new ex_combine] ex_read_old ex_read_new ex_combine
  by blast

text \<open>
  Claim C5, as the specification states it: merging the same delta into the same
  canonical list twice gives what merging it once gives. \<^verbatim>\<open>Schema.DateFromString\<close> accepts
  a string that is not a date. A canonical list with such a record is merged and written
  with \<^verbatim>\<open>null\<close> for that date, and the second merge cannot decode what the first wrote: it
  fails with the decoding error.
\<close>

theorem combine_twice_counterexample:
  "reviewedPreprintsTopUpCombine offlineEnv exBadStore =
     (Inr (JsonText (JsonNulls (JsonList [exP, exX, exQ]))),
      exBadStore(getCachedListFile \<mapsto> JsonText (JsonNulls (JsonList [exP, exX, exQ]))))
   \<and> reviewedPreprintsTopUpCombine offlineEnv
        (exBadStore(getCachedListFile \<mapsto> JsonText (JsonNulls (JsonList [exP, exX, exQ]))))
     = (Inl ParseError,
        exBadStore(getCachedListFile \<mapsto> JsonText (JsonNulls (JsonList [exP, exX, exQ]))))"
proof -
  let ?s1 = "exBadStore(getCachedListFile \<mapsto> JsonText (JsonNulls (JsonList [exP, exX, exQ])))"
  have "getCachedReviewedPreprints None ?s1 = (Inl ParseError, ?s1)"
    by (simp add: getCached_run)
  then have "reviewedPreprintsTopUpCombine offlineEnv ?s1 = (Inl ParseError, ?s1)"
    by (simp add: reviewedPreprintsTopUpCombine_def Effect_tap_def Effect_map_def
        Effect_all2_def Effect_flatMap_def)
  with ex_bad_combine show ?thesis by simp
qed

text \<open>
  Claim C5, amended: when every record the merge keeps (the deduplicated concatenation)
  has valid dates, merging the same delta a second time changes nothing. Run again on
  the store it left (the delta file still there), the merge returns the same document
  and leaves the same store; the list written has no two records of the same id.
\<close>

theorem combine_idempotent:
  assumes "getCachedReviewedPreprints None s = (Inr oldList, s)"
    and "getCachedReviewedPreprints (Some getCachedListFileNew) s = (Inr newList, s)"
    and "list_all validDates
           (Array_dedupeWith (\<lambda>a b. id' a = id' b) (Array_appendAll newList oldList))"
    and "reviewedPreprintsTopUpCombine E s = (Inr t, s')"
  shows "reviewedPreprintsTopUpCombine E s' = (Inr t, s')
       \<and> (\<exists>rs. s' getCachedListFile = Some (JsonText (JsonList rs)) \<and> distinct (map id' rs))"
proof -
  let ?M = "merged oldList newList"
  let ?K = "Array_dedupeWith (\<lambda>a b. id' a = id' b) (Array_appendAll newList oldList)"
  from combine_success [OF assms(4)] assms(1,2)
  have ok: "\<not> denied E getCachedListFile"
    and t: "t = stringifyJson (JsonList ?M)"
    and s': "s' = s(getCachedListFile \<mapsto> stringifyJson (JsonList ?M))"
    by auto
  have "set ?M = set ?K"
    by (simp only: merged_set kept_keepFirst keepFirst_append) simp
  with assms(3) have validM: "list_all validDates ?M" by (simp add: list_all_iff)
  then have written: "stringifyJson (JsonList ?M) = JsonText (JsonList ?M)" by (rule stringify_valid)
  from assms(3) have sd: "list_all (\<lambda>r. statusDate r \<noteq> None) ?K"
    by (simp add: list_all_iff validDates_def)
  have old': "getCachedReviewedPreprints None s' = (Inr ?M, s')"
    by (simp add: getCached_run s' written)
  have "s' getCachedListFileNew = s getCachedListFileNew"
    using cached_path_neq by (simp add: s')
  with assms(2) have new': "getCachedReviewedPreprints (Some getCachedListFileNew) s' = (Inr newList, s')"
    by (rule getCached_same_file [rotated])
  have again: "reviewedPreprintsTopUpCombine E s' = (Inr t, s')"
    using ok by (simp add: combine_run [OF old' new'] merged_idem [OF sd] t) (simp add: s')
  have "s' getCachedListFile = Some (JsonText (JsonList ?M))"
    by (simp add: s' written)
  with again show ?thesis by (simp add: merged_distinct)
qed

theorem combine_idempotent_witness:
  "getCachedReviewedPreprints None exStore = (Inr [exOld, exOther], exStore)
   \<and> getCachedReviewedPreprints (Some getCachedListFileNew) exStore = (Inr [exNew], exStore)
   \<and> list_all validDates
         (Array_dedupeWith (\<lambda>a b. id' a = id' b) (Array_appendAll [exNew] [exOld, exOther]))
   \<and> reviewedPreprintsTopUpCombine offlineEnv exStore =
       (Inr (JsonText (JsonList [exOther, exNew])),
        exStore(getCachedListFile \<mapsto> JsonText (JsonList [exOther, exNew])))
   \<and> reviewedPreprintsTopUpCombine offlineEnv
         (exStore(getCachedListFile \<mapsto> JsonText (JsonList [exOther, exNew]))) =
       (Inr (JsonText (JsonList [exOther, exNew])),
        exStore(getCachedListFile \<mapsto> JsonText (JsonList [exOther, exNew])))
   \<and> (\<exists>rs. (exStore(getCachedListFile \<mapsto> JsonText (JsonList [exOther, exNew]))) getCachedListFile
               = Some (JsonText (JsonList rs))
            \<and> distinct (map id' rs))"
proof -
  have valid: "list_all validDates
         (Array_dedupeWith (\<lambda>a b. id' a = id' b) (Array_appendAll [exNew] [exOld, exOther]))"
    by (simp only: ex_kept) (simp add: ex_valid)
  from combine_idempotent [OF ex_read_old ex_read_new valid ex_combine]
    ex_read_old ex_read_new valid ex_combine
  show ?thesis by blast
qed

text \<open>
  Claim C6, as the specification states it: after every merge the list written is sorted
  by \<^verbatim>\<open>statusDate\<close>, most recent first. On the canonical list of \<open>exP\<close> (1 ms), \<open>exX\<close>
  (a \<^verbatim>\<open>statusDate\<close> that is not a date) and \<open>exQ\<close> (5 ms) the comparator answers \<open>1\<close>
  whenever \<open>exX\<close> is one of the two records, the sort leaves the list as it is, and the
  merge succeeds and writes \<open>exP\<close> before \<open>exQ\<close>; the first two records written are not in
  the relation \<^verbatim>\<open>>=\<close> either.
\<close>

theorem combine_unsorted_counterexample:
  "reviewedPreprintsTopUpCombine offlineEnv exBadStore =
     (Inr (stringifyJson (JsonList [exP, exX, exQ])),
      exBadStore(getCachedListFile \<mapsto> stringifyJson (JsonList [exP, exX, exQ])))
   \<and> \<not> number_ge (statusDate ([exP, exX, exQ] ! 0)) (statusDate ([exP, exX, exQ] ! 1))
   \<and> statusDate exP = Some 1 \<and> statusDate exQ = Some 5"
  by (simp add: ex_bad_combine ex_bad_text) (simp add: number_ge_def exP_def exX_def exQ_def)

text \<open>
  Claim C6, amended: when every record the merge keeps (the deduplicated concatenation)
  has a valid \<^verbatim>\<open>statusDate\<close>, the list written by a successful merge is sorted by
  \<^verbatim>\<open>statusDate\<close>, most recent first: for every two adjacent records \<open>a\<close>, \<open>b\<close> of it,
  \<^verbatim>\<open>a.statusDate >= b.statusDate\<close>. The sort is stable: records of the same \<^verbatim>\<open>statusDate\<close>
  keep the order they have in the deduplicated concatenation.
\<close>

theorem combine_sorted:
  assumes "getCachedReviewedPreprints None s = (Inr oldList, s)"
    and "getCachedReviewedPreprints (Some getCachedListFileNew) s = (Inr newList, s)"
    and "list_all (\<lambda>r. statusDate r \<noteq> None)
           (Array_dedupeWith (\<lambda>a b. id' a = id' b) (Array_appendAll newList oldList))"
    and "reviewedPreprintsTopUpCombine E s = (Inr t, s')"
  shows "\<exists>rs. s' getCachedListFile = Some (stringifyJson (JsonList rs))
            \<and> (\<forall>i. Suc i < length rs \<longrightarrow> number_ge (statusDate (rs ! i)) (statusDate (rs ! Suc i)))
            \<and> (\<forall>k. filter (\<lambda>r. statusDate r = k) rs =
                     filter (\<lambda>r. statusDate r = k)
                       (Array_dedupeWith (\<lambda>a b. id' a = id' b) (Array_appendAll newList oldList)))"
proof -
  let ?k = "\<lambda>r. - the (statusDate r)"
  let ?in = "Array_dedupeWith (\<lambda>a b. id' a = id' b) (Array_appendAll newList oldList)"
  let ?rs = "merged oldList newList"
  from combine_success [OF assms(4)] assms(1,2)
  have s': "s' = s(getCachedListFile \<mapsto> stringifyJson (JsonList ?rs))" by auto
  have rs: "?rs = sort_key ?k ?in"
    unfolding merged_def using assms(3) by (rule Array_sort_statusDate)
  from assms(3) have valid_in: "\<forall>r\<in>set ?in. statusDate r \<noteq> None" by (simp add: list_all_iff)
  then have valid: "\<forall>r\<in>set ?rs. statusDate r \<noteq> None" by (simp add: rs)
  have srt: "sorted (map ?k ?rs)" by (simp add: rs)
  have adj: "\<forall>i. Suc i < length ?rs \<longrightarrow> number_ge (statusDate (?rs ! i)) (statusDate (?rs ! Suc i))"
  proof (intro allI impI)
    fix i assume i: "Suc i < length ?rs"
    then have "?rs ! i \<in> set ?rs" and "?rs ! Suc i \<in> set ?rs" by simp_all
    with valid obtain a b where a: "statusDate (?rs ! i) = Some a"
      and b: "statusDate (?rs ! Suc i) = Some b" by blast
    from srt i have "map ?k ?rs ! i \<le> map ?k ?rs ! Suc i"
      by (simp only: sorted_iff_nth_Suc length_map)
    with i have "?k (?rs ! i) \<le> ?k (?rs ! Suc i)" by simp
    with a b have "b \<le> a" by simp
    with a b show "number_ge (statusDate (?rs ! i)) (statusDate (?rs ! Suc i))"
      by (simp add: number_ge_def)
  qed
  have stable: "\<forall>k. filter (\<lambda>r. statusDate r = k) ?rs = filter (\<lambda>r. statusDate r = k) ?in"
  proof
    fix k
    show "filter (\<lambda>r. statusDate r = k) ?rs = filter (\<lambda>r. statusDate r = k) ?in"
    proof (cases k)
      case None
      with valid valid_in show ?thesis by (simp add: filter_empty_conv)
    next
      case (Some a)
      have l: "filter (\<lambda>r. statusDate r = k) ?rs = filter (\<lambda>r. ?k r = - a) ?rs"
        using valid Some by (intro filter_cong refl) auto
      have r: "filter (\<lambda>r. statusDate r = k) ?in = filter (\<lambda>r. ?k r = - a) ?in"
        using valid_in Some by (intro filter_cong refl) auto
      have "filter (\<lambda>r. ?k r = - a) (sort_key ?k ?in) = filter (\<lambda>r. ?k r = - a) ?in"
        by (rule sort_key_stable)
      with l r show ?thesis by (simp only: rs)
    qed
  qed
  from s' adj stable show ?thesis
    by (intro exI [of _ "merged oldList newList"]) simp
qed

theorem combine_sorted_witness:
  "getCachedReviewedPreprints None exStore = (Inr [exOld, exOther], exStore)
   \<and> getCachedReviewedPreprints (Some getCachedListFileNew) exStore = (Inr [exNew], exStore)
   \<and> list_all (\<lambda>r. statusDate r \<noteq> None)
         (Array_dedupeWith (\<lambda>a b. id' a = id' b) (Array_appendAll [exNew] [exOld, exOther]))
   \<and> reviewedPreprintsTopUpCombine offlineEnv exStore =
       (Inr (JsonText (JsonList [exOther, exNew])),
        exStore(getCachedListFile \<mapsto> JsonText (JsonList [exOther, exNew])))
   \<and> (\<exists>rs. (exStore(getCachedListFile \<mapsto> JsonText (JsonList [exOther, exNew]))) getCachedListFile
               = Some (stringifyJson (JsonList rs))
            \<and> (\<forall>i. Suc i < length rs \<longrightarrow>
                   number_ge (statusDate (rs ! i)) (statusDate (rs ! Suc i)))
            \<and> (\<forall>k. filter (\<lambda>r. statusDate r = k) rs =
                     filter (\<lambda>r. statusDate r = k)
                       (Array_dedupeWith (\<lambda>a b. id' a = id' b)
                          (Array_appendAll [exNew] [exOld, exOther]))))"
proof -
  have valid: "list_all (\<lambda>r. statusDate r \<noteq> None)
         (Array_dedupeWith (\<lambda>a b. id' a = id' b) (Array_appendAll [exNew] [exOld, exOther]))"
    by (simp only: ex_kept) (simp add: exNew_def exOther_def)
  from combine_sorted [OF ex_read_old ex_read_new valid ex_combine]
    ex_read_old ex_read_new valid ex_combine
  show ?thesis by blast
qed

subsection \<open>Page planning and the top-up\<close>

text \<open>
  Claim C2: for a positive limit the page is \<open>(offset + limit) div limit\<close> when the
  offset is positive and \<open>1\<close> otherwise; the next page is fetched as well exactly when
  \<open>offset mod limit\<close> is positive; when the planned pages are fetched, the result is the
  slice from \<open>offset mod limit\<close> to \<open>offset mod limit + limit\<close> of their concatenation
  in page order. The three plans of the specification, for limit 20 and offsets 0, 25
  and 20, are pages [1], [2, 3] and [2] with slices [0, 20), [5, 25) and [0, 20).
\<close>

theorem page_plan:
  "0 < limit \<Longrightarrow>
     topUpPage limit offset = (if 0 < offset then (offset + limit) div limit else 1)
   \<and> topUpPages limit offset =
       topUpPage limit offset # (if 0 < offset mod limit then [topUpPage limit offset + 1] else [])
   \<and> ((\<forall>p\<in>set (topUpPages limit offset).
          getReviewedPreprintsTopUpPage E limit p = Effect_succeed (items p)) \<longrightarrow>
        getReviewedPreprintsTopUp E limit offset =
          Effect_succeed
            (drop (offset mod limit)
               (take (offset mod limit + limit) (concat (map items (topUpPages limit offset))))))
   \<and> topUpPages 20 0 = [1] \<and> topUpSlice 20 0 xs = drop 0 (take 20 xs)
   \<and> topUpPages 20 25 = [2, 3] \<and> topUpSlice 20 25 xs = drop 5 (take 25 xs)
   \<and> topUpPages 20 20 = [2] \<and> topUpSlice 20 20 xs = drop 0 (take 20 xs)"
proof (intro conjI impI)
  assume pos: "0 < limit"
  show "topUpPage limit offset = (if 0 < offset then (offset + limit) div limit else 1)"
    by (simp add: topUpPage_def)
  show "topUpPages limit offset =
       topUpPage limit offset # (if 0 < offset mod limit then [topUpPage limit offset + 1] else [])"
    using topUpPage_pos [OF pos, of offset] by (simp add: topUpPages_def Let_def)
  show "topUpPages 20 0 = [1]" by (simp add: topUpPages_def topUpPage_def)
  show "topUpPages 20 25 = [2, 3]" by (simp add: topUpPages_def topUpPage_def)
  show "topUpPages 20 20 = [2]" by (simp add: topUpPages_def topUpPage_def)
  show "topUpSlice 20 0 xs = drop 0 (take 20 xs)" by (simp add: topUpSlice_def Array_slice_def)
  show "topUpSlice 20 25 xs = drop 5 (take 25 xs)" by (simp add: topUpSlice_def Array_slice_def)
  show "topUpSlice 20 20 xs = drop 0 (take 20 xs)" by (simp add: topUpSlice_def Array_slice_def)
next
  assume pos: "0 < limit"
    and ok: "\<forall>p\<in>set (topUpPages limit offset).
          getReviewedPreprintsTopUpPage E limit p = Effect_succeed (items p)"
  have "Effect_all (map (\<lambda>page. getReviewedPreprintsTopUpPage E limit page) (topUpPages limit offset))
        = Effect_succeed (map items (topUpPages limit offset))"
    using ok by (rule Effect_all_succeed)
  then show "getReviewedPreprintsTopUp E limit offset =
          Effect_succeed
            (drop (offset mod limit)
               (take (offset mod limit + limit) (concat (map items (topUpPages limit offset)))))"
    by (simp add: getReviewedPreprintsTopUp_def Effect_map_def Effect_flatMap_def
        Effect_succeed_def topUpSlice_def Array_slice_def)
qed

theorem page_plan_witness:
  "(0::nat) < 2
   \<and> getReviewedPreprintsTopUpPage servingEnv 2 2 = Effect_succeed [exOther\<lparr>hash := Some ''d41d''\<rparr>]
   \<and> getReviewedPreprintsTopUpPage servingEnv 2 3 = Effect_succeed [exOther\<lparr>hash := Some ''d41d''\<rparr>]
   \<and> topUpPage 2 3 = 2
   \<and> topUpPages 2 3 = [2, 3]
   \<and> getReviewedPreprintsTopUp servingEnv 2 3 = Effect_succeed [exOther\<lparr>hash := Some ''d41d''\<rparr>]"
proof -
  have pos: "(0::nat) < 2" by simp
  have pages: "topUpPages 2 3 = [2, 3]" by (simp add: topUpPages_def topUpPage_def)
  have ok: "\<forall>p\<in>set (topUpPages 2 3).
         getReviewedPreprintsTopUpPage servingEnv 2 p = Effect_succeed [exOther\<lparr>hash := Some ''d41d''\<rparr>]"
    by (simp add: ex_page)
  note plan = page_plan [OF pos, of 3 servingEnv "\<lambda>p. [exOther\<lparr>hash := Some ''d41d''\<rparr>]"]
  have page: "topUpPage 2 3 = 2" by (simp add: topUpPage_def)
  from plan ok
  have "getReviewedPreprintsTopUp servingEnv 2 3 =
          Effect_succeed
            (drop (3 mod 2)
               (take (3 mod 2 + 2)
                  (concat (map (\<lambda>p. [exOther\<lparr>hash := Some ''d41d''\<rparr>]) (topUpPages 2 3)))))"
    by blast
  then have "getReviewedPreprintsTopUp servingEnv 2 3
               = Effect_succeed [exOther\<lparr>hash := Some ''d41d''\<rparr>]"
    by (simp add: pages)
  with pos page pages show ?thesis by (simp add: ex_page)
qed

text \<open>
  Claim C10: the copy of \<^verbatim>\<open>getReviewedPreprintsTopUp\<close> in the command-line file plans the
  same pages and takes the same slice as the one in the queries module.
\<close>

theorem top_up_copies_agree:
  "cli_topUpPages limit offset = topUpPages limit offset
   \<and> cli_topUpSlice limit offset results = topUpSlice limit offset results"
  by (simp add: cli_topUpPages_def topUpPages_def cli_topUpPage_def topUpPage_def
      cli_topUpSlice_def topUpSlice_def)

text \<open>
  Claim C7: when the fetch or the decoding of one of the planned pages fails, the
  top-up fails and the store is as it was: nothing is written to the delta file.
\<close>

theorem topUpWrite_no_partial_write:
  assumes "getCachedReviewedPreprints None s = (Inr cached, s)"
    and "p \<in> set (topUpPages limit (length cached))"
    and "fst (getReviewedPreprintsTopUpPage E limit p s) = Inl e"
  shows "\<exists>e'. reviewedPreprintsTopUpWrite E limit s = (Inl e', s)"
proof -
  from assms(3) have "isl (fetchPage E limit p)" by (simp add: page_run)
  with assms(2) have "isl (collect (map (fetchPage E limit) (topUpPages limit (length cached))))"
    by (auto simp: collect_Inl_iff)
  then obtain e' where "collect (map (fetchPage E limit) (topUpPages limit (length cached))) = Inl e'"
    by (auto simp: isl_def)
  with assms(1) have "reviewedPreprintsTopUpWrite E limit s = (Inl e', s)"
    by (rule topUpWrite_fail)
  then show ?thesis by blast
qed

theorem topUpWrite_no_partial_write_witness:
  "getCachedReviewedPreprints None Map.empty = (Inr [], Map.empty)
   \<and> 1 \<in> set (topUpPages 20 (length ([] :: ReviewedPreprints)))
   \<and> fst (getReviewedPreprintsTopUpPage offlineEnv 20 1 Map.empty) = Inl (RequestError (ListPage 1 20))
   \<and> (\<exists>e'. reviewedPreprintsTopUpWrite offlineEnv 20 Map.empty = (Inl e', Map.empty))"
proof -
  have h1: "getCachedReviewedPreprints None Map.empty = (Inr [], Map.empty)"
    by (simp add: getCached_run)
  have h2: "1 \<in> set (topUpPages 20 (length ([] :: ReviewedPreprints)))"
    by (simp add: topUpPages_def topUpPage_def)
  have h3: "fst (getReviewedPreprintsTopUpPage offlineEnv 20 1 Map.empty)
              = Inl (RequestError (ListPage 1 20))"
    by (simp add: page_run fetchPage_def offlineEnv_def)
  from topUpWrite_no_partial_write [OF h1 h2 h3] h1 h2 h3 show ?thesis by blast
qed

subsection \<open>Reading the cache\<close>

text \<open>
  Claim C3, as the specification states it: reading a cached list gives the empty list
  whenever the file is missing or malformed, and never an error. A file that holds JSON
  which is not a list of summary records (the text \<^verbatim>\<open>{}\<close>, say) is parsed, so
  \<^verbatim>\<open>catchAll\<close> has nothing to catch, and the decoding that follows it fails.
\<close>

theorem cached_read_recovery_counterexample:
  "getCachedReviewedPreprints None (Map.empty(getCachedListFile \<mapsto> JsonText JsonOther))
     = (Inl ParseError, Map.empty(getCachedListFile \<mapsto> JsonText JsonOther))"
  by (simp add: getCached_run)

text \<open>
  Claim C3, amended: reading a cached list gives the empty list when the file is missing
  or is not JSON, and the list of records when the file decodes; it never changes the
  store. A file that is JSON but does not decode fails with the decoding error, which
  the caller sees.
\<close>

theorem cached_read_recovery:
  "getCachedReviewedPreprints file s =
     (case s (case file of None \<Rightarrow> getCachedListFile | Some f \<Rightarrow> f) of
        None \<Rightarrow> (Inr [], s)
      | Some NotJson \<Rightarrow> (Inr [], s)
      | Some (JsonText j) \<Rightarrow>
          (case reviewedPreprintsCodec j of None \<Rightarrow> (Inl ParseError, s) | Some rs \<Rightarrow> (Inr rs, s)))"
  by (simp add: getCachedReviewedPreprints_def Effect_flatMap_def Effect_catchAll_def
      readFileString_def JSON_parse_def Schema_decodeUnknown_def Effect_succeed_def Effect_fail_def
      split: option.splits document.splits)

subsection \<open>Detail files\<close>

text \<open>
  Claim C4, as the specification states it: when one detail fetch fails, the error of
  the backfill reports which identifiers were not completed. With a remote that answers
  no request, the backfill of \<open>a\<close> alone and the backfill of \<open>a\<close> and \<open>b\<close> fail with the same
  error, that of the request for \<open>a\<close>, although \<open>b\<close> is not completed in the second run
  either.
\<close>

theorem backfill_error_counterexample:
  "retrieveIndividualReviewedPreprints offlineEnv [(''a'', getCachedFile ''a'')] Map.empty
     = (Inl (RequestError (Item ''a'')), Map.empty)
   \<and> retrieveIndividualReviewedPreprints offlineEnv
        [(''a'', getCachedFile ''a''), (''b'', getCachedFile ''b'')] Map.empty
     = (Inl (RequestError (Item ''a'')), Map.empty)"
  by (simp add: individual_run ex_fetch_offline)

text \<open>
  Claim C4, amended: when the detail fetch of one of the ids fails, the whole operation
  fails, with the error of the first fetch, in list order, that fails, and it writes
  no detail file: the store is as it was.
\<close>

theorem backfill_fails_with_first_error:
  assumes "\<exists>rp\<in>set rps. isl (fetchItem E (fst rp))"
  shows "\<exists>e i. retrieveIndividualReviewedPreprints E rps s = (Inl e, s)
             \<and> i < length rps \<and> fetchItem E (fst (rps ! i)) = Inl e
             \<and> (\<forall>j<i. \<not> isl (fetchItem E (fst (rps ! j))))"
proof -
  let ?g = "\<lambda>rp. map_sum (\<lambda>e. e) (\<lambda>result. (fst rp, snd rp, result)) (fetchItem E (fst rp))"
  have isl: "isl (?g rp) = isl (fetchItem E (fst rp))" for rp :: "string \<times> string"
    by (cases "fetchItem E (fst rp)") simp_all
  from assms have "isl (collect (map ?g rps))"
    by (simp add: collect_Inl_iff isl)
  then obtain e where e: "collect (map ?g rps) = Inl e" by (auto simp: isl_def)
  from collect_first [OF e] obtain i where
    i: "i < length rps" "?g (rps ! i) = Inl e" "\<forall>j<i. \<not> isl (?g (rps ! j))"
    by auto
  from i(2) have "fetchItem E (fst (rps ! i)) = Inl e"
    by (cases "fetchItem E (fst (rps ! i))") simp_all
  moreover have "retrieveIndividualReviewedPreprints E rps s = (Inl e, s)"
    by (simp add: individual_run e)
  ultimately show ?thesis using i(1,3) by (auto simp: isl)
qed

theorem backfill_fails_with_first_error_witness:
  "(\<exists>rp\<in>set [(''b'', getCachedFile ''b''), (''c'', getCachedFile ''c'')].
       isl (fetchItem offlineEnv (fst rp)))
   \<and> (\<exists>e i. retrieveIndividualReviewedPreprints offlineEnv
                [(''b'', getCachedFile ''b''), (''c'', getCachedFile ''c'')] exStore = (Inl e, exStore)
             \<and> i < length [(''b'', getCachedFile ''b''), (''c'', getCachedFile ''c'')]
             \<and> fetchItem offlineEnv
                  (fst ([(''b'', getCachedFile ''b''), (''c'', getCachedFile ''c'')] ! i)) = Inl e
             \<and> (\<forall>j<i. \<not> isl (fetchItem offlineEnv
                  (fst ([(''b'', getCachedFile ''b''), (''c'', getCachedFile ''c'')] ! j)))))"
proof -
  have h: "\<exists>rp\<in>set [(''b'', getCachedFile ''b''), (''c'', getCachedFile ''c'')].
       isl (fetchItem offlineEnv (fst rp))"
    by (rule bexI [of _ "(''b'', getCachedFile ''b'')"]) (simp_all add: ex_fetch_offline)
  from backfill_fails_with_first_error [OF h, of exStore] h show ?thesis by blast
qed

text \<open>
  Claim C8: when the invalidator succeeds, no detail file is left for the id of any
  record of the delta, and every other file is as it was; and it succeeds whenever the
  file system lets it remove those paths, whether the detail files exist or not.
\<close>

theorem invalidate_removes_details:
  assumes "getCachedReviewedPreprints (Some getCachedListFileNew) s = (Inr delta, s)"
  shows "(reviewedPreprintsTopUpInvalidate E s = (Inr (), s') \<longrightarrow>
            (\<forall>r\<in>set delta. s' (getCachedFile (id' r)) = None)
          \<and> (\<forall>p. p \<notin> (\<lambda>r. getCachedFile (id' r)) ` set delta \<longrightarrow> s' p = s p))
       \<and> ((\<forall>r\<in>set delta. \<not> denied E (getCachedFile (id' r))) \<longrightarrow>
            (\<exists>s''. reviewedPreprintsTopUpInvalidate E s = (Inr (), s'')))"
proof (intro conjI impI)
  let ?ps = "map (\<lambda>r. getCachedFile (id' r)) delta"
  assume ok: "\<forall>r\<in>set delta. \<not> denied E (getCachedFile (id' r))"
  then have "\<forall>p\<in>set ?ps. \<not> denied E p" by simp
  from forEach_remove_ok [OF this, of s]
  show "\<exists>s''. reviewedPreprintsTopUpInvalidate E s = (Inr (), s'')"
    by (simp add: invalidate_run [OF assms])
next
  let ?ps = "map (\<lambda>r. getCachedFile (id' r)) delta"
  assume run: "reviewedPreprintsTopUpInvalidate E s = (Inr (), s')"
  then have fe: "Effect_forEach_discard ?ps (\<lambda>path. remove_force E path) s = (Inr (), s')"
    by (simp add: invalidate_run [OF assms])
  from forEach_remove_success [OF fe] have "\<forall>p\<in>set ?ps. \<not> denied E p" .
  from forEach_remove_ok [OF this, of s] fe
  have s': "s' = (\<lambda>p. if p \<in> set ?ps then None else s p)" by simp
  show "\<forall>r\<in>set delta. s' (getCachedFile (id' r)) = None" by (simp add: s')
  show "\<forall>p. p \<notin> (\<lambda>r. getCachedFile (id' r)) ` set delta \<longrightarrow> s' p = s p" by (simp add: s')
qed

theorem invalidate_removes_details_witness:
  "getCachedReviewedPreprints (Some getCachedListFileNew) exStore = (Inr [exNew], exStore)
   \<and> reviewedPreprintsTopUpInvalidate offlineEnv exStore
       = (Inr (), exStore(getCachedFile ''a'' := None))
   \<and> exStore (getCachedFile ''a'') \<noteq> None
   \<and> (exStore(getCachedFile ''a'' := None)) (getCachedFile (id' exNew)) = None
   \<and> (exStore(getCachedFile ''a'' := None)) getCachedListFile = exStore getCachedListFile
   \<and> \<not> denied offlineEnv (getCachedFile (id' exNew))
   \<and> (\<exists>s''. reviewedPreprintsTopUpInvalidate offlineEnv exStore = (Inr (), s''))"
proof -
  have present: "exStore (getCachedFile ''a'') \<noteq> None" by (simp add: exStore_def)
  have free: "\<forall>r\<in>set [exNew]. \<not> denied offlineEnv (getCachedFile (id' r))"
    by (simp add: ex_denied)
  have other: "getCachedListFile \<notin> (\<lambda>r. getCachedFile (id' r)) ` set [exNew]"
    by (simp add: getCachedFile_def getCachedListFile_def getCachedFilePath_def)
  note inv = invalidate_removes_details [OF ex_read_new, of offlineEnv
      "exStore(getCachedFile ''a'' := None)"]
  from inv ex_invalidate
  have gone: "\<forall>r\<in>set [exNew]. (exStore(getCachedFile ''a'' := None)) (getCachedFile (id' r)) = None"
    and kept: "\<forall>p. p \<notin> (\<lambda>r. getCachedFile (id' r)) ` set [exNew] \<longrightarrow>
                 (exStore(getCachedFile ''a'' := None)) p = exStore p"
    by blast+
  from inv free
  have runs: "\<exists>s''. reviewedPreprintsTopUpInvalidate offlineEnv exStore = (Inr (), s'')"
    by blast
  from gone have 1: "(exStore(getCachedFile ''a'' := None)) (getCachedFile (id' exNew)) = None"
    by simp
  from kept other
  have 2: "(exStore(getCachedFile ''a'' := None)) getCachedListFile = exStore getCachedListFile"
    by blast
  from free have 3: "\<not> denied offlineEnv (getCachedFile (id' exNew))" by simp
  from ex_read_new ex_invalidate present 1 2 3 runs show ?thesis by blast
qed

text \<open>
  Claim C9: when the backfill succeeds, every id of the canonical list has a detail
  file. The ids fetched are those of the canonical list whose detail file was absent,
  each written with the record the remote gave for it; every other file, and so every
  detail file that existed, is as it was.
\<close>

theorem backfill_completes:
  assumes cached: "getCachedReviewedPreprints None s = (Inr cached, s)"
    and run: "retrieveMissingIndividualReviewedPreprints E s = (Inr results, s')"
  shows "(\<forall>r\<in>set cached. s' (getCachedFile (id' r)) \<noteq> None)
       \<and> map fst results = filter (\<lambda>m. s (getCachedFile m) = None) (map id' cached)
       \<and> (\<forall>x\<in>set results.
             fetchItem E (fst x) = Inr (snd (snd x))
           \<and> s' (getCachedFile (fst x)) = Some (stringifyJson (JsonItem (snd (snd x)))))
       \<and> (\<forall>p. p \<notin> getCachedFile ` {m \<in> id' ` set cached. s (getCachedFile m) = None} \<longrightarrow>
             s' p = s p)"
proof -
  let ?absent = "filter (\<lambda>m. s (getCachedFile m) = None) (map id' cached)"
  let ?ms = "map (\<lambda>m. (m, getCachedFile m)) ?absent"
  let ?g = "\<lambda>rp. map_sum (\<lambda>e. e) (\<lambda>result. (fst rp, snd rp, result)) (fetchItem E (fst rp))"
  let ?pth = "\<lambda>r::string \<times> string \<times> ReviewedPreprint. fst (snd r)"
  let ?doc = "\<lambda>r::string \<times> string \<times> ReviewedPreprint. stringifyJson (JsonItem (snd (snd r)))"
  from run have ind: "retrieveIndividualReviewedPreprints E ?ms s = (Inr results, s')"
    by (simp add: retrieveMissingIndividualReviewedPreprints_def Effect_flatMap_def
        missing_run [OF cached])
  obtain c where c: "collect (map ?g ?ms) = c" by blast
  from ind c obtain fetched where fetched: "c = Inr fetched"
    by (cases c) (simp_all add: individual_run)
  obtain w s2 where w: "Effect_all (map (\<lambda>r. writeFileString E (?pth r) (?doc r)) fetched) s = (w, s2)"
    by (cases "Effect_all (map (\<lambda>r. writeFileString E (?pth r) (?doc r)) fetched) s") blast
  from ind c fetched w obtain us where us: "w = Inr us" and eq: "fetched = results" "s2 = s'"
    by (cases w) (simp_all add: individual_run)
  from c fetched eq have coll: "collect (map ?g ?ms) = Inr results" by simp
  from collect_fetch [OF coll]
  have shape: "map (\<lambda>x. (fst x, fst (snd x))) results = ?ms"
    and got: "\<forall>x\<in>set results. fetchItem E (fst x) = Inr (snd (snd x))"
    by simp_all
  have "map fst (map (\<lambda>x. (fst x, fst (snd x))) results) = map fst ?ms"
    by (simp only: shape)
  then have names: "map fst results = ?absent" by (simp add: comp_def)
  have paths: "\<forall>x\<in>set results. ?pth x = getCachedFile (fst x)"
  proof
    fix x assume "x \<in> set results"
    then have "(fst x, fst (snd x)) \<in> set (map (\<lambda>x. (fst x, fst (snd x))) results)"
      by (simp add: image_iff) blast
    then have "(fst x, fst (snd x)) \<in> set ?ms" by (simp only: shape)
    then show "?pth x = getCachedFile (fst x)" by auto
  qed
  have consistent: "\<forall>r\<in>set results. \<forall>r'\<in>set results. ?pth r = ?pth r' \<longrightarrow> ?doc r = ?doc r'"
  proof (intro ballI impI)
    fix r r' assume r: "r \<in> set results" and r': "r' \<in> set results" and "?pth r = ?pth r'"
    with paths have "getCachedFile (fst r) = getCachedFile (fst r')" by simp
    then have "fst r = fst r'" by (simp add: getCachedFile_inj)
    moreover from got r r' have "fetchItem E (fst r) = Inr (snd (snd r))"
      and "fetchItem E (fst r') = Inr (snd (snd r'))" by simp_all
    ultimately show "?doc r = ?doc r'" by simp
  qed
  from w us eq have writes:
    "Effect_all (map (\<lambda>r. writeFileString E (?pth r) (?doc r)) results) s = (Inr us, s')"
    by simp
  note wr = writes_run [where pth = ?pth and doc = ?doc, OF writes consistent]
  from wr have frame: "\<forall>p. p \<notin> ?pth ` set results \<longrightarrow> s' p = s p" by (rule conjunct1)
  from wr have written: "\<forall>r\<in>set results. s' (?pth r) = Some (?doc r)" by (rule conjunct2)
  have pthset: "?pth ` set results = getCachedFile ` set ?absent"
  proof -
    have "?pth ` set results = snd ` set (map (\<lambda>x. (fst x, fst (snd x))) results)"
      by (simp add: image_image)
    also have "\<dots> = snd ` set ?ms" by (simp only: shape)
    also have "\<dots> = getCachedFile ` set ?absent" by (simp add: image_image)
    finally show ?thesis .
  qed
  have absent: "set ?absent = {m \<in> id' ` set cached. s (getCachedFile m) = None}" by auto
  have 4: "\<forall>p. p \<notin> getCachedFile ` {m \<in> id' ` set cached. s (getCachedFile m) = None} \<longrightarrow>
             s' p = s p"
    using frame by (simp only: pthset absent)
  have 3: "\<forall>x\<in>set results.
             fetchItem E (fst x) = Inr (snd (snd x))
           \<and> s' (getCachedFile (fst x)) = Some (stringifyJson (JsonItem (snd (snd x))))"
  proof
    fix x assume x: "x \<in> set results"
    with written have "s' (?pth x) = Some (?doc x)" by blast
    with paths x have "s' (getCachedFile (fst x)) = Some (?doc x)" by simp
    with got x show "fetchItem E (fst x) = Inr (snd (snd x))
           \<and> s' (getCachedFile (fst x)) = Some (stringifyJson (JsonItem (snd (snd x))))" by simp
  qed
  have 1: "\<forall>r\<in>set cached. s' (getCachedFile (id' r)) \<noteq> None"
  proof
    fix r assume r: "r \<in> set cached"
    show "s' (getCachedFile (id' r)) \<noteq> None"
    proof (cases "s (getCachedFile (id' r)) = None")
      case True
      with r have "id' r \<in> set ?absent" by simp
      then have "id' r \<in> set (map fst results)" by (simp only: names)
      then obtain x where x: "x \<in> set results" "fst x = id' r" by auto
      with 3 show ?thesis by fastforce
    next
      case False
      then have "getCachedFile (id' r) \<notin> getCachedFile ` {m \<in> id' ` set cached. s (getCachedFile m) = None}"
        by (auto simp: getCachedFile_inj)
      with 4 have "s' (getCachedFile (id' r)) = s (getCachedFile (id' r))" by blast
      with False show ?thesis by simp
    qed
  qed
  from 1 names 3 4 show ?thesis by blast
qed

theorem backfill_completes_witness:
  "getCachedReviewedPreprints None exStore = (Inr [exOld, exOther], exStore)
   \<and> retrieveMissingIndividualReviewedPreprints servingEnv exStore
       = (Inr [(''b'', getCachedFile ''b'', exOther)],
          exStore(getCachedFile ''b'' \<mapsto> JsonText (JsonItem exOther)))
   \<and> (exStore(getCachedFile ''b'' \<mapsto> JsonText (JsonItem exOther))) (getCachedFile (id' exOld))
        \<noteq> None
   \<and> (exStore(getCachedFile ''b'' \<mapsto> JsonText (JsonItem exOther))) (getCachedFile (id' exOther))
        \<noteq> None
   \<and> map fst [(''b'', getCachedFile ''b'', exOther)]
       = filter (\<lambda>m. exStore (getCachedFile m) = None) (map id' [exOld, exOther])
   \<and> fetchItem servingEnv ''b'' = Inr exOther
   \<and> (exStore(getCachedFile ''b'' \<mapsto> JsonText (JsonItem exOther))) (getCachedFile ''b'')
       = Some (stringifyJson (JsonItem exOther))
   \<and> (exStore(getCachedFile ''b'' \<mapsto> JsonText (JsonItem exOther))) (getCachedFile ''a'')
       = exStore (getCachedFile ''a'')"
proof -
  let ?s' = "exStore(getCachedFile ''b'' \<mapsto> JsonText (JsonItem exOther))"
  note bf = backfill_completes [OF ex_read_old ex_backfill]
  from bf have all: "\<forall>r\<in>set [exOld, exOther]. ?s' (getCachedFile (id' r)) \<noteq> None"
    by (rule conjunct1)
  from bf have names: "map fst [(''b'', getCachedFile ''b'', exOther)]
       = filter (\<lambda>m. exStore (getCachedFile m) = None) (map id' [exOld, exOther])"
    by blast
  from bf have each: "\<forall>x\<in>set [(''b'', getCachedFile ''b'', exOther)].
             fetchItem servingEnv (fst x) = Inr (snd (snd x))
           \<and> ?s' (getCachedFile (fst x)) = Some (stringifyJson (JsonItem (snd (snd x))))"
    by blast
  from bf have frame: "\<forall>p. p \<notin> getCachedFile `
             {m \<in> id' ` set [exOld, exOther]. exStore (getCachedFile m) = None} \<longrightarrow>
             ?s' p = exStore p"
    by blast
  have "exStore (getCachedFile ''a'') \<noteq> None" by (simp add: exStore_def)
  then have "getCachedFile ''a'' \<notin> getCachedFile `
             {m \<in> id' ` set [exOld, exOther]. exStore (getCachedFile m) = None}"
    by (auto simp: getCachedFile_inj)
  with frame have 4: "?s' (getCachedFile ''a'') = exStore (getCachedFile ''a'')" by blast
  from all have 1: "?s' (getCachedFile (id' exOld)) \<noteq> None"
    and 2: "?s' (getCachedFile (id' exOther)) \<noteq> None" by simp_all
  from each have 3: "fetchItem servingEnv ''b'' = Inr exOther
      \<and> ?s' (getCachedFile ''b'') = Some (stringifyJson (JsonItem exOther))" by simp
  from ex_read_old ex_backfill 1 2 names 3 4 show ?thesis by blast
qed

end
